theory Spec2Isabelle
  imports Main "HOL-Library.Word" "HOL-Library.Monad_Syntax"
begin

unbundle bit_operations_syntax

section \<open>Code points\<close>

text \<open>
  \<^verbatim>\<open>struct CodePoint\<close> wraps one \<^verbatim>\<open>unsigned\<close>; the comparison operators of
  CodePoints.cpp compare that value. The enumerators of \<^verbatim>\<open>CodePointValue\<close> are
  abbreviations for their numbers.
\<close>

type_synonym CodePoint = "32 word"
type_synonym Byte = "8 word"

abbreviation NULL_CODE_POINT :: CodePoint where "NULL_CODE_POINT \<equiv> 0x0000"
abbreviation BACKSPACE :: CodePoint where "BACKSPACE \<equiv> 0x0008"
abbreviation CHARACTER_TABULATION :: CodePoint where "CHARACTER_TABULATION \<equiv> 0x0009"
abbreviation LINE_FEED :: CodePoint where "LINE_FEED \<equiv> 0x000A"
abbreviation LINE_TABULATION :: CodePoint where "LINE_TABULATION \<equiv> 0x000B"
abbreviation FORM_FEED :: CodePoint where "FORM_FEED \<equiv> 0x000C"
abbreviation CARRIAGE_RETURN :: CodePoint where "CARRIAGE_RETURN \<equiv> 0x000D"
abbreviation SHIFT_OUT :: CodePoint where "SHIFT_OUT \<equiv> 0x000E"
abbreviation INFORMATION_SEPARATOR_ONE :: CodePoint where "INFORMATION_SEPARATOR_ONE \<equiv> 0x001F"
abbreviation SPACE :: CodePoint where "SPACE \<equiv> 0x0020"
abbreviation EXCLAMATION_MARK :: CodePoint where "EXCLAMATION_MARK \<equiv> 0x0021"
abbreviation QUOTATION_MARK :: CodePoint where "QUOTATION_MARK \<equiv> 0x0022"
abbreviation NUMBER_SIGN :: CodePoint where "NUMBER_SIGN \<equiv> 0x0023"
abbreviation PERCENTAGE_SIGN :: CodePoint where "PERCENTAGE_SIGN \<equiv> 0x0025"
abbreviation APOSTROPHE :: CodePoint where "APOSTROPHE \<equiv> 0x0027"
abbreviation LEFT_PARENTHESIS :: CodePoint where "LEFT_PARENTHESIS \<equiv> 0x0028"
abbreviation RIGHT_PARENTHESIS :: CodePoint where "RIGHT_PARENTHESIS \<equiv> 0x0029"
abbreviation ASTERISK :: CodePoint where "ASTERISK \<equiv> 0x002A"
abbreviation PLUS_SIGN :: CodePoint where "PLUS_SIGN \<equiv> 0x002B"
abbreviation COMMA :: CodePoint where "COMMA \<equiv> 0x002C"
abbreviation HYPHEN_MINUS :: CodePoint where "HYPHEN_MINUS \<equiv> 0x002D"
abbreviation FULL_STOP :: CodePoint where "FULL_STOP \<equiv> 0x002E"
abbreviation SOLIDUS :: CodePoint where "SOLIDUS \<equiv> 0x002F"
abbreviation ZERO :: CodePoint where "ZERO \<equiv> 0x0030"
abbreviation NINE :: CodePoint where "NINE \<equiv> 0x0039"
abbreviation COLON :: CodePoint where "COLON \<equiv> 0x003A"
abbreviation SEMI_COLON :: CodePoint where "SEMI_COLON \<equiv> 0x003B"
abbreviation LESS_THAN_SIGN :: CodePoint where "LESS_THAN_SIGN \<equiv> 0x003C"
abbreviation GREATER_THAN_SIGN :: CodePoint where "GREATER_THAN_SIGN \<equiv> 0x003E"
abbreviation COMMERCIAL_AT :: CodePoint where "COMMERCIAL_AT \<equiv> 0x0040"
abbreviation LATIN_CAPITAL_LETTER_A :: CodePoint where "LATIN_CAPITAL_LETTER_A \<equiv> 0x0041"
abbreviation LATIN_CAPITAL_LETTER_E :: CodePoint where "LATIN_CAPITAL_LETTER_E \<equiv> 0x0045"
abbreviation LATIN_CAPITAL_LETTER_F :: CodePoint where "LATIN_CAPITAL_LETTER_F \<equiv> 0x0046"
abbreviation LATIN_CAPITAL_LETTER_L :: CodePoint where "LATIN_CAPITAL_LETTER_L \<equiv> 0x004C"
abbreviation LATIN_CAPITAL_LETTER_R :: CodePoint where "LATIN_CAPITAL_LETTER_R \<equiv> 0x0052"
abbreviation LATIN_CAPITAL_LETTER_U :: CodePoint where "LATIN_CAPITAL_LETTER_U \<equiv> 0x0055"
abbreviation LATIN_CAPITAL_LETTER_Z :: CodePoint where "LATIN_CAPITAL_LETTER_Z \<equiv> 0x005A"
abbreviation LEFT_SQUARE_BRACKET :: CodePoint where "LEFT_SQUARE_BRACKET \<equiv> 0x005B"
abbreviation REVERSE_SOLIDUS :: CodePoint where "REVERSE_SOLIDUS \<equiv> 0x005C"
abbreviation RIGHT_SQUARE_BRACKET :: CodePoint where "RIGHT_SQUARE_BRACKET \<equiv> 0x005D"
abbreviation LOW_LINE :: CodePoint where "LOW_LINE \<equiv> 0x005F"
abbreviation LATIN_SMALL_LETTER_A :: CodePoint where "LATIN_SMALL_LETTER_A \<equiv> 0x0061"
abbreviation LATIN_SMALL_LETTER_E :: CodePoint where "LATIN_SMALL_LETTER_E \<equiv> 0x0065"
abbreviation LATIN_SMALL_LETTER_F :: CodePoint where "LATIN_SMALL_LETTER_F \<equiv> 0x0066"
abbreviation LATIN_SMALL_LETTER_L :: CodePoint where "LATIN_SMALL_LETTER_L \<equiv> 0x006C"
abbreviation LATIN_SMALL_LETTER_R :: CodePoint where "LATIN_SMALL_LETTER_R \<equiv> 0x0072"
abbreviation LATIN_SMALL_LETTER_U :: CodePoint where "LATIN_SMALL_LETTER_U \<equiv> 0x0075"
abbreviation LATIN_SMALL_LETTER_Z :: CodePoint where "LATIN_SMALL_LETTER_Z \<equiv> 0x007A"
abbreviation LEFT_CURLY_BRACKET :: CodePoint where "LEFT_CURLY_BRACKET \<equiv> 0x007B"
abbreviation RIGHT_CURLY_BRACKET :: CodePoint where "RIGHT_CURLY_BRACKET \<equiv> 0x007D"
abbreviation DELETE :: CodePoint where "DELETE \<equiv> 0x007F"
abbreviation CONTROL :: CodePoint where "CONTROL \<equiv> 0x0080"
abbreviation REPLACEMENT :: CodePoint where "REPLACEMENT \<equiv> 0xFFFD"
abbreviation MAXIMUM_ALLOWED_CODE_POINT :: CodePoint where "MAXIMUM_ALLOWED_CODE_POINT \<equiv> 0x10FFFF"

datatype Encoding = UTF8 | UTF16BE | UTF16LE | Count

definition IsNewline :: "CodePoint \<Rightarrow> bool" where
  "IsNewline codePoint = (codePoint = LINE_FEED)"

definition IsLeadingSurrogate :: "CodePoint \<Rightarrow> bool" where
  "IsLeadingSurrogate codePoint = (codePoint \<ge> 0xD800 \<and> codePoint \<le> 0xDBFF)"

definition IsTrailingSurrogate :: "CodePoint \<Rightarrow> bool" where
  "IsTrailingSurrogate codePoint = (codePoint \<ge> 0xDC00 \<and> codePoint \<le> 0xDFFF)"

definition IsSurrogate :: "CodePoint \<Rightarrow> bool" where
  "IsSurrogate codePoint = (IsLeadingSurrogate codePoint \<or> IsTrailingSurrogate codePoint)"

definition IsWhitespace :: "CodePoint \<Rightarrow> bool" where
  "IsWhitespace codePoint =
     (IsNewline codePoint \<or> codePoint = CHARACTER_TABULATION \<or> codePoint = SPACE)"

definition IsDigit :: "CodePoint \<Rightarrow> bool" where
  "IsDigit codePoint = (codePoint \<ge> ZERO \<and> codePoint \<le> NINE)"

definition IsHexDigit :: "CodePoint \<Rightarrow> bool" where
  "IsHexDigit codePoint =
     (IsDigit codePoint
      \<or> (codePoint \<ge> LATIN_CAPITAL_LETTER_A \<and> codePoint \<le> LATIN_CAPITAL_LETTER_F)
      \<or> (codePoint \<ge> LATIN_SMALL_LETTER_A \<and> codePoint \<le> LATIN_SMALL_LETTER_F))"

definition IsUppercaseLetter :: "CodePoint \<Rightarrow> bool" where
  "IsUppercaseLetter codePoint =
     (codePoint \<ge> LATIN_CAPITAL_LETTER_A \<and> codePoint \<le> LATIN_CAPITAL_LETTER_Z)"

definition IsLowercaseLetter :: "CodePoint \<Rightarrow> bool" where
  "IsLowercaseLetter codePoint =
     (codePoint \<ge> LATIN_SMALL_LETTER_A \<and> codePoint \<le> LATIN_SMALL_LETTER_Z)"

definition IsLetter :: "CodePoint \<Rightarrow> bool" where
  "IsLetter codePoint = (IsUppercaseLetter codePoint \<or> IsLowercaseLetter codePoint)"

definition IsNonASCII :: "CodePoint \<Rightarrow> bool" where
  "IsNonASCII codePoint = (codePoint \<ge> CONTROL)"

definition IsIdentStart :: "CodePoint \<Rightarrow> bool" where
  "IsIdentStart codePoint =
     (IsLetter codePoint \<or> IsNonASCII codePoint \<or> codePoint = LOW_LINE)"

definition IsIdent :: "CodePoint \<Rightarrow> bool" where
  "IsIdent codePoint =
     (IsIdentStart codePoint \<or> IsDigit codePoint \<or> codePoint = HYPHEN_MINUS)"

definition IsNonPrintable :: "CodePoint \<Rightarrow> bool" where
  "IsNonPrintable codePoint =
     ((codePoint \<ge> NULL_CODE_POINT \<and> codePoint \<le> BACKSPACE)
      \<or> codePoint = LINE_TABULATION
      \<or> (codePoint \<ge> SHIFT_OUT \<and> codePoint \<le> INFORMATION_SEPARATOR_ONE)
      \<or> codePoint = DELETE)"

section \<open>Decoder and input preprocessing\<close>

text \<open>
  \<^verbatim>\<open>BOMSniff\<close> copies three bytes into \<^verbatim>\<open>const char BOM[3]\<close> and compares each
  with an \<^verbatim>\<open>int\<close> literal (\<^verbatim>\<open>BOM[0] == 0xEF\<close>). The comparison promotes the
  \<^verbatim>\<open>char\<close> to \<^verbatim>\<open>int\<close>, and whether plain \<^verbatim>\<open>char\<close> is signed is fixed by the
  platform, not by the source: the first argument of \<open>BOMSniff\<close> and of
  \<open>CreateCodePointsStream\<close> is that choice (\<open>True\<close>: plain \<^verbatim>\<open>char\<close> is signed).
  \<^verbatim>\<open>UTF8Decode\<close> converts each byte to \<^verbatim>\<open>unsigned char\<close> first and does not
  depend on it.
\<close>

definition char_to_int :: "bool \<Rightarrow> Byte \<Rightarrow> int" where
  "char_to_int plainCharSigned b = (if plainCharSigned then sint b else uint b)"

definition BOMSniff :: "bool \<Rightarrow> Byte list \<Rightarrow> nat \<Rightarrow> Encoding" where
  "BOMSniff plainCharSigned ioQueue position =
     (if position + 3 > length ioQueue then Count
      else
        let BOM0 = char_to_int plainCharSigned (ioQueue ! position);
            BOM1 = char_to_int plainCharSigned (ioQueue ! (position + 1));
            BOM2 = char_to_int plainCharSigned (ioQueue ! (position + 2))
        in if BOM0 = 0xEF then (if BOM1 = 0xBB \<and> BOM2 = 0xBF then UTF8 else Count)
           else if BOM0 = 0xFE then (if BOM1 = 0xFF then UTF16BE else Count)
           else if BOM0 = 0xFF then (if BOM1 = 0xFE then UTF16LE else Count)
           else Count)"

text \<open>
  \<^verbatim>\<open>PushCodePoint\<close> updates \<^verbatim>\<open>isPreviousCarriageReturn\<close> and \<^verbatim>\<open>output\<close> in place;
  the model returns both. The last branch leaves the flag as it was, as the source does.
  \<^verbatim>\<open>CSS_PARSER_ASSERT\<close> (CSSParserAssert.h) is not part of the sources at hand and is
  taken to have no effect on the result.
\<close>

definition PushCodePoint :: "CodePoint \<Rightarrow> bool \<Rightarrow> CodePoint list \<Rightarrow> bool \<times> CodePoint list" where
  "PushCodePoint codePoint isPreviousCarriageReturn output =
     (if codePoint = FORM_FEED then (False, output @ [LINE_FEED])
      else if codePoint = CARRIAGE_RETURN then (True, output @ [LINE_FEED])
      else if codePoint = LINE_FEED then
        (False, if \<not> isPreviousCarriageReturn then output @ [LINE_FEED] else output)
      else if codePoint = NULL_CODE_POINT then (False, output @ [REPLACEMENT])
      else (isPreviousCarriageReturn, output @ [codePoint]))"

record utf8_state =
  utf8_codePoint :: "32 word"
  utf8_bytesSeen :: Byte
  utf8_bytesNeeded :: Byte
  utf8_lowerBoundary :: Byte
  utf8_upperBoundary :: Byte

definition utf8_initial :: utf8_state where
  "utf8_initial = \<lparr>utf8_codePoint = 0, utf8_bytesSeen = 0, utf8_bytesNeeded = 0,
                    utf8_lowerBoundary = 0x80, utf8_upperBoundary = 0xBF\<rparr>"

function UTF8Decode_loop ::
  "Byte list \<Rightarrow> nat \<Rightarrow> utf8_state \<Rightarrow> bool \<Rightarrow> CodePoint list \<Rightarrow> nat \<times> CodePoint list" where
  "UTF8Decode_loop input inputPosition st isPreviousCarriageReturn output =
     (if inputPosition < length input then
        let byte = input ! inputPosition in
        if byte = 0 then
          (if utf8_bytesNeeded st \<noteq> 0
           then (inputPosition, snd (PushCodePoint REPLACEMENT isPreviousCarriageReturn output))
           else (inputPosition, output))
        else if utf8_bytesNeeded st = 0 then
          (if byte \<ge> 0x00 \<and> byte \<le> 0x7F then
             let (cr, out) = PushCodePoint (ucast byte) isPreviousCarriageReturn output
             in UTF8Decode_loop input (inputPosition + 1) st cr out
           else if byte \<ge> 0xC2 \<and> byte \<le> 0xDF then
             UTF8Decode_loop input (inputPosition + 1)
               (st\<lparr>utf8_bytesNeeded := 1, utf8_codePoint := ucast (byte AND 0x1F)\<rparr>)
               isPreviousCarriageReturn output
           else if byte \<ge> 0xE0 \<and> byte \<le> 0xEF then
             let st1 = (if byte = 0xE0 then st\<lparr>utf8_lowerBoundary := 0xA0\<rparr>
                        else if byte = 0xED then st\<lparr>utf8_upperBoundary := 0x9F\<rparr>
                        else st)
             in UTF8Decode_loop input (inputPosition + 1)
                  (st1\<lparr>utf8_bytesNeeded := 2, utf8_codePoint := ucast (byte AND 0xF)\<rparr>)
                  isPreviousCarriageReturn output
           else if byte \<ge> 0xF0 \<and> byte \<le> 0xF4 then
             let st1 = (if byte = 0xF0 then st\<lparr>utf8_lowerBoundary := 0x90\<rparr>
                        else if byte = 0xF4 then st\<lparr>utf8_upperBoundary := 0x8F\<rparr>
                        else st)
             in UTF8Decode_loop input (inputPosition + 1)
                  (st1\<lparr>utf8_bytesNeeded := 3, utf8_codePoint := ucast (byte AND 0x7)\<rparr>)
                  isPreviousCarriageReturn output
           else
             let (cr, out) = PushCodePoint REPLACEMENT isPreviousCarriageReturn output
             in UTF8Decode_loop input (inputPosition + 1) st cr out)
        else if byte < utf8_lowerBoundary st \<or> byte > utf8_upperBoundary st then
          let (cr, out) = PushCodePoint REPLACEMENT isPreviousCarriageReturn output
          in UTF8Decode_loop input inputPosition
               (st\<lparr>utf8_codePoint := 0, utf8_bytesNeeded := 0, utf8_bytesSeen := 0,
                   utf8_lowerBoundary := 0x80, utf8_upperBoundary := 0xBF\<rparr>) cr out
        else
          let st1 = st\<lparr>utf8_lowerBoundary := 0x80, utf8_upperBoundary := 0xBF,
                       utf8_codePoint := push_bit 6 (utf8_codePoint st) OR ucast (byte AND 0x3F),
                       utf8_bytesSeen := utf8_bytesSeen st + 1\<rparr>
          in if utf8_bytesSeen st1 \<noteq> utf8_bytesNeeded st1 then
               UTF8Decode_loop input (inputPosition + 1) st1 isPreviousCarriageReturn output
             else
               let (cr, out) = PushCodePoint (utf8_codePoint st1) isPreviousCarriageReturn output
               in UTF8Decode_loop input (inputPosition + 1)
                    (st1\<lparr>utf8_codePoint := 0, utf8_bytesNeeded := 0, utf8_bytesSeen := 0\<rparr>) cr out
      else if utf8_bytesNeeded st \<noteq> 0
        then (inputPosition, snd (PushCodePoint REPLACEMENT isPreviousCarriageReturn output))
        else (inputPosition, output))"
  by pat_completeness auto
termination
  by (relation "measures [\<lambda>(input, inputPosition, st, cr, out). length input - inputPosition,
                          \<lambda>(input, inputPosition, st, cr, out). if utf8_bytesNeeded st = 0 then 0 else 1]")
     auto

declare UTF8Decode_loop.simps [simp del]

definition UTF8Decode :: "Byte list \<Rightarrow> nat \<Rightarrow> CodePoint list \<Rightarrow> nat \<times> CodePoint list" where
  "UTF8Decode input inputPosition output =
     UTF8Decode_loop input inputPosition utf8_initial False output"

text \<open>
  \<^verbatim>\<open>CreateCodePointsStream\<close> returns its \<^verbatim>\<open>bool\<close> and the \<^verbatim>\<open>output\<close> vector, which
  it clears only after the BOM check: on failure the caller's vector is returned as
  it came in.
\<close>

definition CreateCodePointsStream :: "bool \<Rightarrow> Byte list \<Rightarrow> CodePoint list \<Rightarrow> bool \<times> CodePoint list" where
  "CreateCodePointsStream plainCharSigned text output =
     (let ioQueuePosition = 0;
          BOMEncoding = BOMSniff plainCharSigned text ioQueuePosition
      in if BOMEncoding \<noteq> Count \<and> BOMEncoding \<noteq> UTF8 then (False, output)
         else
           let ioQueuePosition = (if BOMEncoding \<noteq> Count then ioQueuePosition + 3
                                  else ioQueuePosition)
           in (True, snd (UTF8Decode text ioQueuePosition [])))"


section \<open>Tokens\<close>

datatype TokenType =
    Ident | Function | AtKeyword | Hash | String | BadString | URL | BadURL | Delim
  | Number | Percentage | Dimension | Whitespace | CDO | CDC | Colon | SemiColon | Comma
  | LeftSquareBracket | RightSquareBracket | LeftParenthesis | RightParenthesis
  | LeftCurlyBracket | RightCurlyBracket

text \<open>
  \<^verbatim>\<open>ConvertStringToNumber\<close> writes either an \<^verbatim>\<open>int64_t\<close> or a \<^verbatim>\<open>double\<close> into the
  byte array of the number; \<open>NumberStorage\<close> records which. Binary floating point is
  not modelled: a stored \<^verbatim>\<open>double\<close> is represented by the operands of the source
  expression \<^verbatim>\<open>s * (i + f * std::pow(10, d)) * std::pow(10, t * e)\<close>, the last one being
  the product \<^verbatim>\<open>t * e\<close> as the source computes it, in \<^verbatim>\<open>unsigned\<close> arithmetic.
\<close>

datatype DoubleExpr = DoubleExpr int "64 word" "32 word" "32 word" "32 word"

datatype NumberStorage = Int64 "64 word" | Double DoubleExpr

datatype HashTokenValue = HashTokenValue "CodePoint list" bool

datatype NumberTokenValue = NumberTokenValue NumberStorage bool

datatype DimensionTokenValue = DimensionTokenValue NumberTokenValue "CodePoint list"

text \<open>
  \<^verbatim>\<open>Token\<close> is a type tag and a variant. A token built by \<^verbatim>\<open>Token(TokenType)\<close> alone
  keeps the variant's default value, its first alternative, an empty vector.
\<close>

datatype TokenValue =
    CodePoints "CodePoint list"
  | HashValue HashTokenValue
  | SingleCodePoint CodePoint
  | NumberValue NumberTokenValue
  | DimensionValue DimensionTokenValue

datatype Token = Token TokenType TokenValue

text \<open>\<^verbatim>\<open>m_Type\<close>, the tag of a token.\<close>

fun TokenType_of :: "Token \<Rightarrow> TokenType" where
  "TokenType_of (Token ty v) = ty"

definition CreateWhitespace :: Token where "CreateWhitespace = Token Whitespace (CodePoints [])"
definition CreateBadString :: Token where "CreateBadString = Token BadString (CodePoints [])"
definition CreateBadURL :: Token where "CreateBadURL = Token BadURL (CodePoints [])"
definition CreateLeftParenthesis :: Token where
  "CreateLeftParenthesis = Token LeftParenthesis (CodePoints [])"
definition CreateRightParenthesis :: Token where
  "CreateRightParenthesis = Token RightParenthesis (CodePoints [])"
definition CreateLeftSquareBracket :: Token where
  "CreateLeftSquareBracket = Token LeftSquareBracket (CodePoints [])"
definition CreateRightSquareBracket :: Token where
  "CreateRightSquareBracket = Token RightSquareBracket (CodePoints [])"
definition CreateLeftCurlyBracket :: Token where
  "CreateLeftCurlyBracket = Token LeftCurlyBracket (CodePoints [])"
definition CreateRightCurlyBracket :: Token where
  "CreateRightCurlyBracket = Token RightCurlyBracket (CodePoints [])"
definition CreateComma :: Token where "CreateComma = Token Comma (CodePoints [])"
definition CreateColon :: Token where "CreateColon = Token Colon (CodePoints [])"
definition CreateSemiColon :: Token where "CreateSemiColon = Token SemiColon (CodePoints [])"
definition CreateCDC :: Token where "CreateCDC = Token CDC (CodePoints [])"
definition CreateCDO :: Token where "CreateCDO = Token CDO (CodePoints [])"
definition CreateDelim :: "CodePoint \<Rightarrow> Token" where
  "CreateDelim v = Token Delim (SingleCodePoint v)"
definition CreateHash :: "HashTokenValue \<Rightarrow> Token" where
  "CreateHash v = Token Hash (HashValue v)"
definition CreateString :: "CodePoint list \<Rightarrow> Token" where
  "CreateString v = Token String (CodePoints v)"
definition CreateNumber :: "NumberTokenValue \<Rightarrow> Token" where
  "CreateNumber v = Token Number (NumberValue v)"
definition CreatePercentage :: "NumberTokenValue \<Rightarrow> Token" where
  "CreatePercentage v = Token Percentage (NumberValue v)"
definition CreateDimension :: "DimensionTokenValue \<Rightarrow> Token" where
  "CreateDimension v = Token Dimension (DimensionValue v)"
definition CreateFunction :: "CodePoint list \<Rightarrow> Token" where
  "CreateFunction v = Token Function (CodePoints v)"
definition CreateIdent :: "CodePoint list \<Rightarrow> Token" where
  "CreateIdent v = Token Ident (CodePoints v)"
definition CreateURL :: "CodePoint list \<Rightarrow> Token" where
  "CreateURL v = Token URL (CodePoints v)"
definition CreateAtKeyword :: "CodePoint list \<Rightarrow> Token" where
  "CreateAtKeyword v = Token AtKeyword (CodePoints v)"

section \<open>Tokenizer\<close>

text \<open>
  Conventions of the embedding.
  \<^item> The cursor \<^verbatim>\<open>SizeType& position\<close> is passed in and returned.
  \<^item> An output buffer filled by placement \<^verbatim>\<open>new\<close> is returned as an option: \<open>None\<close>
    when the function left the buffer unwritten.
  \<^item> The \<^verbatim>\<open>bool\<close> a function returns is the first component of its result.
  \<^item> A read \<^verbatim>\<open>inputStream[i]\<close> that the source makes under a bounds test of the same
    path (\<^verbatim>\<open>position < inputStream.size() && ...\<close>, a loop condition) is \<open>xs ! i\<close> under
    that test. Every other read goes through \<open>at\<close>, and a function that can make such a
    read returns an option: \<open>None\<close> is a read past the end of the vector, or a read of a
    buffer that was never written, after which C++ defines no behaviour.
\<close>

definition at :: "'a list \<Rightarrow> nat \<Rightarrow> 'a option" where
  "at xs i = (if i < length xs then Some (xs ! i) else None)"

function ConsumeComments_loop :: "CodePoint list \<Rightarrow> nat \<Rightarrow> bool \<Rightarrow> bool \<times> nat" where
  "ConsumeComments_loop inputStream position isPreviousAsterisk =
     (if position < length inputStream then
        let codePoint = inputStream ! position in
        if codePoint = ASTERISK then ConsumeComments_loop inputStream (position + 1) True
        else if codePoint = SOLIDUS \<and> isPreviousAsterisk then (True, position + 1)
        else ConsumeComments_loop inputStream (position + 1) False
      else (False, position))"
  by pat_completeness auto
termination
  by (relation "measure (\<lambda>(inputStream, position, b). length inputStream - position)") auto

declare ConsumeComments_loop.simps [simp del]

definition ConsumeComments :: "CodePoint list \<Rightarrow> nat \<Rightarrow> bool \<times> nat" where
  "ConsumeComments inputStream position =
     (if position + 1 \<ge> length inputStream then (True, position)
      else if inputStream ! position \<noteq> SOLIDUS \<or> inputStream ! (position + 1) \<noteq> ASTERISK
        then (True, position)
      else ConsumeComments_loop inputStream position False)"

text \<open>
  The loop of \<^verbatim>\<open>ConsumeWhitespace\<close>. \<^verbatim>\<open>ConsumeURL\<close> writes the same loop inline
  (\<^verbatim>\<open>while (position < inputStream.size() && IsWhitespace(inputStream[position]))\<close>), and
  the model uses this function there too.
\<close>

function ConsumeWhitespace_loop :: "CodePoint list \<Rightarrow> nat \<Rightarrow> nat" where
  "ConsumeWhitespace_loop inputStream position =
     (if position < length inputStream then
        if \<not> IsWhitespace (inputStream ! position) then position
        else ConsumeWhitespace_loop inputStream (position + 1)
      else position)"
  by pat_completeness auto
termination
  by (relation "measure (\<lambda>(inputStream, position). length inputStream - position)") auto

declare ConsumeWhitespace_loop.simps [simp del]

definition ConsumeWhitespace :: "CodePoint list \<Rightarrow> nat \<Rightarrow> nat \<times> Token" where
  "ConsumeWhitespace inputStream position =
     (ConsumeWhitespace_loop inputStream position, CreateWhitespace)"

definition HexDigitToNumber :: "CodePoint \<Rightarrow> 32 word" where
  "HexDigitToNumber codePoint =
     (if IsDigit codePoint then codePoint - ZERO
      else if IsLowercaseLetter codePoint then 10 + codePoint - LATIN_SMALL_LETTER_A
      else 10 + codePoint - LATIN_CAPITAL_LETTER_A)"

function HexSequenceToCodePoint_loop ::
  "CodePoint list \<Rightarrow> nat \<Rightarrow> nat \<Rightarrow> nat \<Rightarrow> 32 word \<Rightarrow> CodePoint option" where
  "HexSequenceToCodePoint_loop inputStream start count i resultBytes =
     (if i < count then
        case at inputStream (start + i) of
          None \<Rightarrow> None
        | Some codePoint \<Rightarrow>
            HexSequenceToCodePoint_loop inputStream start count (i + 1)
              (push_bit 4 resultBytes OR HexDigitToNumber codePoint)
      else Some resultBytes)"
  by pat_completeness auto
termination
  by (relation "measure (\<lambda>(inputStream, start, count, i, r). count - i)") auto

declare HexSequenceToCodePoint_loop.simps [simp del]

definition HexSequenceToCodePoint :: "CodePoint list \<Rightarrow> nat \<Rightarrow> nat \<Rightarrow> CodePoint option" where
  "HexSequenceToCodePoint inputStream start count =
     HexSequenceToCodePoint_loop inputStream start count 0 0"

text \<open>The \<^verbatim>\<open>for (; consumed < 5; ++consumed)\<close> loop of \<^verbatim>\<open>ConsumeEscapedCodePoint\<close>.\<close>

function ConsumeEscapedCodePoint_loop ::
  "CodePoint list \<Rightarrow> nat \<Rightarrow> nat \<Rightarrow> (nat \<times> nat) option" where
  "ConsumeEscapedCodePoint_loop inputStream position consumed =
     (if consumed < 5 then
        case at inputStream position of
          None \<Rightarrow> None
        | Some codePoint \<Rightarrow>
            if \<not> IsHexDigit codePoint then Some (position, consumed)
            else ConsumeEscapedCodePoint_loop inputStream (position + 1) (consumed + 1)
      else Some (position, consumed))"
  by pat_completeness auto
termination
  by (relation "measure (\<lambda>(inputStream, position, consumed). 5 - consumed)") auto

declare ConsumeEscapedCodePoint_loop.simps [simp del]

definition ConsumeEscapedCodePoint ::
  "CodePoint list \<Rightarrow> nat \<Rightarrow> (bool \<times> nat \<times> CodePoint) option" where
  "ConsumeEscapedCodePoint inputStream position =
     (let startPosition = position in
      if position = length inputStream then Some (False, position, REPLACEMENT)
      else do {
        codePoint \<leftarrow> at inputStream position;
        let position = position + 1;
        if IsHexDigit codePoint then do {
          (position, consumed) \<leftarrow> ConsumeEscapedCodePoint_loop inputStream position 0;
          following \<leftarrow> at inputStream position;
          let position = (if IsWhitespace following then position + 1 else position);
          asNumber \<leftarrow> HexSequenceToCodePoint inputStream startPosition (consumed + 1);
          if asNumber = ZERO \<or> IsSurrogate asNumber \<or> asNumber > MAXIMUM_ALLOWED_CODE_POINT
          then Some (True, position, REPLACEMENT)
          else Some (True, position, asNumber)
        }
        else Some (True, position, codePoint)
      })"

lemma ConsumeEscapedCodePoint_loop_position:
  "ConsumeEscapedCodePoint_loop inputStream position consumed = Some (position', consumed')
   \<Longrightarrow> position \<le> position'"
proof (induction inputStream position consumed rule: ConsumeEscapedCodePoint_loop.induct)
  case (1 inputStream position consumed)
  from "1.prems" show ?case
    by (subst (asm) ConsumeEscapedCodePoint_loop.simps)
       (auto split: if_splits option.splits dest!: "1.IH")
qed

lemma ConsumeEscapedCodePoint_position:
  assumes "ConsumeEscapedCodePoint inputStream position = Some (ok, position', escaped)"
  shows "position \<le> position'"
  using assms
  by (auto simp add: ConsumeEscapedCodePoint_def Let_def
           split: if_splits option.splits prod.splits Option.bind_splits
           dest!: ConsumeEscapedCodePoint_loop_position)

definition AreTwoCodePointsValidEscape :: "CodePoint list \<Rightarrow> nat \<Rightarrow> bool" where
  "AreTwoCodePointsValidEscape inputStream position =
     (if position + 1 \<ge> length inputStream then False
      else if inputStream ! position \<noteq> REVERSE_SOLIDUS then False
      else \<not> IsNewline (inputStream ! (position + 1)))"

function ConsumeStringToken_loop ::
  "CodePoint list \<Rightarrow> nat \<Rightarrow> CodePoint list \<Rightarrow> CodePoint \<Rightarrow> (bool \<times> nat \<times> Token option) option" where
  "ConsumeStringToken_loop inputStream position val endingCodePoint =
     (if position < length inputStream then
        let nextCodePoint = inputStream ! position; position = position + 1 in
        if nextCodePoint = endingCodePoint then Some (True, position, Some (CreateString val))
        else if IsNewline nextCodePoint then Some (False, position - 1, Some CreateBadString)
        else if nextCodePoint = REVERSE_SOLIDUS then
          (if position = length inputStream
           then ConsumeStringToken_loop inputStream position val endingCodePoint
           else
             case at inputStream position of
               None \<Rightarrow> None
             | Some nextCodePoint \<Rightarrow>
                 if IsNewline nextCodePoint
                 then ConsumeStringToken_loop inputStream (position + 1) val endingCodePoint
                 else
                   case ConsumeEscapedCodePoint inputStream position of
                     None \<Rightarrow> None
                   | Some (ok, position', escapedCodePoint) \<Rightarrow>
                       if \<not> ok then Some (False, position', None)
                       else ConsumeStringToken_loop inputStream position'
                              (val @ [escapedCodePoint]) endingCodePoint)
        else ConsumeStringToken_loop inputStream position (val @ [nextCodePoint]) endingCodePoint
      else Some (False, position, Some (CreateString val)))"
  by pat_completeness auto
termination
  by (relation "measure (\<lambda>(inputStream, position, val, e). length inputStream - position)")
     (auto dest!: ConsumeEscapedCodePoint_position)

declare ConsumeStringToken_loop.simps [simp del]

definition ConsumeStringToken ::
  "CodePoint list \<Rightarrow> nat \<Rightarrow> CodePoint \<Rightarrow> (bool \<times> nat \<times> Token option) option" where
  "ConsumeStringToken inputStream position endingCodePoint =
     ConsumeStringToken_loop inputStream position [] endingCodePoint"

definition DoThreeCodePointsStartIndentSequence :: "CodePoint list \<Rightarrow> nat \<Rightarrow> bool" where
  "DoThreeCodePointsStartIndentSequence inputStream position =
     (if position + 2 \<ge> length inputStream then False
      else
        let firstCodePoint = inputStream ! position in
        if firstCodePoint = HYPHEN_MINUS then
          IsIdentStart (inputStream ! (position + 1))
          \<or> inputStream ! (position + 1) = HYPHEN_MINUS
          \<or> AreTwoCodePointsValidEscape inputStream (position + 1)
        else if firstCodePoint = REVERSE_SOLIDUS then
          AreTwoCodePointsValidEscape inputStream position
        else IsIdentStart firstCodePoint)"

function ConsumeIdentSequence_loop ::
  "CodePoint list \<Rightarrow> nat \<Rightarrow> CodePoint list \<Rightarrow> (bool \<times> nat \<times> CodePoint list option) option" where
  "ConsumeIdentSequence_loop inputStream position resultLocal =
     (if position < length inputStream then
        let nextCodePoint = inputStream ! position in
        if IsIdent nextCodePoint
        then ConsumeIdentSequence_loop inputStream (position + 1) (resultLocal @ [nextCodePoint])
        else if AreTwoCodePointsValidEscape inputStream position then
          case ConsumeEscapedCodePoint inputStream (position + 1) of
            None \<Rightarrow> None
          | Some (ok, position', escapedCodePoint) \<Rightarrow>
              if \<not> ok then Some (False, position', None)
              else ConsumeIdentSequence_loop inputStream position'
                     (resultLocal @ [escapedCodePoint])
        else Some (True, position, Some resultLocal)
      else Some (True, position, Some resultLocal))"
  by pat_completeness auto
termination
  by (relation "measure (\<lambda>(inputStream, position, r). length inputStream - position)")
     (auto dest!: ConsumeEscapedCodePoint_position)

declare ConsumeIdentSequence_loop.simps [simp del]

definition ConsumeIdentSequence ::
  "CodePoint list \<Rightarrow> nat \<Rightarrow> (bool \<times> nat \<times> CodePoint list option) option" where
  "ConsumeIdentSequence inputStream position = ConsumeIdentSequence_loop inputStream position []"


definition DoThreeCodePointsStartNumber :: "CodePoint list \<Rightarrow> nat \<Rightarrow> bool" where
  "DoThreeCodePointsStartNumber inputStream position =
     (if position \<ge> length inputStream then False
      else
        let firstCodePoint = inputStream ! position in
        if firstCodePoint = PLUS_SIGN \<or> firstCodePoint = HYPHEN_MINUS then
          (if position + 1 < length inputStream \<and> IsDigit (inputStream ! (position + 1))
           then True
           else position + 2 < length inputStream
                \<and> inputStream ! (position + 1) = FULL_STOP
                \<and> IsDigit (inputStream ! (position + 2)))
        else if firstCodePoint = FULL_STOP then
          position + 1 < length inputStream \<and> IsDigit (inputStream ! (position + 1))
        else IsDigit firstCodePoint)"

text \<open>
  The lambda \<^verbatim>\<open>InterpretAsBase10Number\<close> of \<^verbatim>\<open>ConvertStringToNumber\<close>: its scanning
  loop, its summing loop (in \<^verbatim>\<open>unsigned\<close> arithmetic, which wraps), and the lambda, which
  returns its result, the advanced \<^verbatim>\<open>position\<close> and the value stored through
  \<^verbatim>\<open>numDigits\<close>.
\<close>

function InterpretAsBase10Number_scan :: "CodePoint list \<Rightarrow> nat \<Rightarrow> nat" where
  "InterpretAsBase10Number_scan string position =
     (if position < length string \<and> IsDigit (string ! position)
      then InterpretAsBase10Number_scan string (position + 1)
      else position)"
  by pat_completeness auto
termination
  by (relation "measure (\<lambda>(string, position). length string - position)") auto

declare InterpretAsBase10Number_scan.simps [simp del]

function InterpretAsBase10Number_sum ::
  "CodePoint list \<Rightarrow> nat \<Rightarrow> nat \<Rightarrow> 32 word \<Rightarrow> 32 word \<Rightarrow> 32 word option" where
  "InterpretAsBase10Number_sum string start i result base =
     (if i > start then
        let i = i - 1 in
        case at string i of
          None \<Rightarrow> None
        | Some digit \<Rightarrow>
            InterpretAsBase10Number_sum string start i (result + (digit - ZERO) * base) (base * 10)
      else Some result)"
  by pat_completeness auto
termination
  by (relation "measure (\<lambda>(string, start, i, r, b). i)") auto

declare InterpretAsBase10Number_sum.simps [simp del]

definition InterpretAsBase10Number ::
  "CodePoint list \<Rightarrow> nat \<Rightarrow> (32 word \<times> nat \<times> 32 word) option" where
  "InterpretAsBase10Number string position =
     (let start = position;
          position = InterpretAsBase10Number_scan string (position + 1);
          numDigits = of_nat (position - start)
      in do {
        result \<leftarrow> InterpretAsBase10Number_sum string start position 0 1;
        Some (result, position, numDigits)
      })"

text \<open>
  \<^verbatim>\<open>ConvertStringToNumber\<close>. \<^verbatim>\<open>s\<close> and \<^verbatim>\<open>t\<close> only ever hold 1 or -1 and are
  integers here; \<^verbatim>\<open>i\<close> is an \<^verbatim>\<open>int64_t\<close>, \<^verbatim>\<open>f\<close>, \<^verbatim>\<open>d\<close> and \<^verbatim>\<open>e\<close> are
  \<^verbatim>\<open>unsigned\<close>. The integer branch multiplies in 64 bits, with two's-complement
  wrap-around; its loop multiplies \<^verbatim>\<open>exponentPow\<close> by ten \<^verbatim>\<open>e\<close> times. The second
  call of the lambda that stores through \<^verbatim>\<open>&d\<close> overwrites the first one's count.
\<close>

definition ConvertStringToNumber :: "CodePoint list \<Rightarrow> NumberStorage option" where
  "ConvertStringToNumber string = do {
     first \<leftarrow> at string 0;
     let (s, position) =
       (if first = PLUS_SIGN then (1 :: int, 1 :: nat)
        else if first = HYPHEN_MINUS then (- 1, 1)
        else (1, 0));
     afterSign \<leftarrow> at string position;
     (i, position) \<leftarrow>
       (if IsDigit afterSign
        then do { (r, p, n) \<leftarrow> InterpretAsBase10Number string position;
                  Some (ucast r :: 64 word, p) }
        else Some (0, position));
     let (isInteger, position) =
       (if position < length string \<and> string ! position = FULL_STOP
        then (False, position + 1) else (True, position));
     (f, d, position) \<leftarrow>
       (if position < length string \<and> IsDigit (string ! position)
        then do { (r, p, n) \<leftarrow> InterpretAsBase10Number string position; Some (r, n, p) }
        else Some (0, 0, position));
     let position =
       (if position < length string
           \<and> (string ! position = LATIN_CAPITAL_LETTER_E
                \<or> string ! position = LATIN_SMALL_LETTER_E)
        then position + 1 else position);
     let (t, isInteger, position) =
       (if position < length string then
          if string ! position = PLUS_SIGN then (1 :: int, isInteger, position + 1)
          else if string ! position = HYPHEN_MINUS then (- 1, False, position + 1)
          else (1, isInteger, position)
        else (1, isInteger, position));
     (e, d) \<leftarrow>
       (if position < length string \<and> IsDigit (string ! position)
        then do { (r, p, n) \<leftarrow> InterpretAsBase10Number string position; Some (r, n) }
        else Some (0, d));
     if isInteger
     then Some (Int64 (word_of_int s * i * 10 ^ unat e))
     else Some (Double (DoubleExpr s i f d (word_of_int t * e)))
   }"

text \<open>
  The digit loops of \<^verbatim>\<open>ConsumeNumber\<close>
  (\<^verbatim>\<open>while (position < inputStream.size() && IsDigit(inputStream[position]))
  repr.push_back(inputStream[position++])\<close>).
\<close>

function ConsumeNumber_digits ::
  "CodePoint list \<Rightarrow> nat \<Rightarrow> CodePoint list \<Rightarrow> nat \<times> CodePoint list" where
  "ConsumeNumber_digits inputStream position repr =
     (if position < length inputStream \<and> IsDigit (inputStream ! position)
      then ConsumeNumber_digits inputStream (position + 1) (repr @ [inputStream ! position])
      else (position, repr))"
  by pat_completeness auto
termination
  by (relation "measure (\<lambda>(inputStream, position, repr). length inputStream - position)") auto

declare ConsumeNumber_digits.simps [simp del]

text \<open>
  \<^verbatim>\<open>ConsumeNumber\<close>, in the order of the source: the sign, the integer digits, the
  block for a fractional part, the block for an exponent part, the conversion. The two
  blocks are definitions of their own; each maps \<^verbatim>\<open>position\<close>, \<^verbatim>\<open>repr\<close> and
  \<^verbatim>\<open>isInteger\<close> to their values after the block.
\<close>

definition ConsumeNumber_fraction ::
  "CodePoint list \<Rightarrow> nat \<Rightarrow> CodePoint list \<Rightarrow> bool \<Rightarrow> nat \<times> CodePoint list \<times> bool" where
  "ConsumeNumber_fraction inputStream position repr isInteger =
     (if position + 1 < length inputStream then
        if inputStream ! position = FULL_STOP \<and> IsDigit (inputStream ! (position + 1))
        then
          let (p, r) = ConsumeNumber_digits inputStream (position + 2)
                         (repr @ [inputStream ! position, inputStream ! (position + 1)])
          in (p, r, False)
        else (position, repr, isInteger)
      else (position, repr, isInteger))"

definition ConsumeNumber_exponent ::
  "CodePoint list \<Rightarrow> nat \<Rightarrow> CodePoint list \<Rightarrow> bool \<Rightarrow> nat \<times> CodePoint list \<times> bool" where
  "ConsumeNumber_exponent inputStream position repr isInteger =
     (if position + 1 < length inputStream then
        if inputStream ! position = LATIN_CAPITAL_LETTER_E
           \<or> inputStream ! position = LATIN_SMALL_LETTER_E
        then
          if inputStream ! (position + 1) = PLUS_SIGN
             \<or> inputStream ! (position + 1) = HYPHEN_MINUS
          then
            if position + 2 < length inputStream \<and> IsDigit (inputStream ! (position + 2))
            then
              let (p, r) = ConsumeNumber_digits inputStream (position + 3)
                             (repr @ [inputStream ! position, inputStream ! (position + 1),
                                      inputStream ! (position + 2)])
              in (p, r, False)
            else (position, repr, isInteger)
          else if IsDigit (inputStream ! (position + 1))
          then
            let (p, r) = ConsumeNumber_digits inputStream (position + 2)
                           (repr @ [inputStream ! position, inputStream ! (position + 1)])
            in (p, r, False)
          else (position, repr, isInteger)
        else (position, repr, isInteger)
      else (position, repr, isInteger))"

definition ConsumeNumber ::
  "CodePoint list \<Rightarrow> nat \<Rightarrow> (bool \<times> nat \<times> NumberTokenValue option) option" where
  "ConsumeNumber inputStream position =
     (if position = length inputStream then Some (False, position, None)
      else do {
        nextCodePoint \<leftarrow> at inputStream position;
        let isInteger = True;
        let (position, repr) =
          (if nextCodePoint = PLUS_SIGN \<or> nextCodePoint = HYPHEN_MINUS
           then (position + 1, [nextCodePoint]) else (position, []));
        let (position, repr) = ConsumeNumber_digits inputStream position repr;
        let (position, repr, isInteger) =
          ConsumeNumber_fraction inputStream position repr isInteger;
        let (position, repr, isInteger) =
          ConsumeNumber_exponent inputStream position repr isInteger;
        val \<leftarrow> ConvertStringToNumber repr;
        Some (True, position, Some (NumberTokenValue val isInteger))
      })"

definition ConsumeNumericToken ::
  "CodePoint list \<Rightarrow> nat \<Rightarrow> (bool \<times> nat \<times> Token option) option" where
  "ConsumeNumericToken inputStream position = do {
     (ok, position, number) \<leftarrow> ConsumeNumber inputStream position;
     if \<not> ok then Some (False, position, None)
     else if DoThreeCodePointsStartIndentSequence inputStream position then do {
       (ok, position, unit) \<leftarrow> ConsumeIdentSequence inputStream position;
       if \<not> ok then Some (False, position, None)
       else do {
         number \<leftarrow> number;
         unit \<leftarrow> unit;
         Some (True, position, Some (CreateDimension (DimensionTokenValue number unit)))
       }
     }
     else do {
       following \<leftarrow> at inputStream position;
       if following = PERCENTAGE_SIGN then do {
         number \<leftarrow> number;
         Some (True, position + 1, Some (CreatePercentage number))
       }
       else do {
         number \<leftarrow> number;
         Some (True, position, Some (CreateNumber number))
       }
     }
   }"

function ConsumeRemnantsOfBadURL :: "CodePoint list \<Rightarrow> nat \<Rightarrow> (bool \<times> nat) option" where
  "ConsumeRemnantsOfBadURL inputStream position =
     (if position < length inputStream then
        if inputStream ! position = RIGHT_PARENTHESIS then Some (True, position)
        else if AreTwoCodePointsValidEscape inputStream position then
          case ConsumeEscapedCodePoint inputStream position of
            None \<Rightarrow> None
          | Some (ok, position', dummy) \<Rightarrow>
              if \<not> ok then Some (False, position')
              else ConsumeRemnantsOfBadURL inputStream (position' + 1)
        else ConsumeRemnantsOfBadURL inputStream (position + 1)
      else Some (True, position))"
  by pat_completeness auto
termination
  by (relation "measure (\<lambda>(inputStream, position). length inputStream - position)")
     (auto dest!: ConsumeEscapedCodePoint_position)

declare ConsumeRemnantsOfBadURL.simps [simp del]

text \<open>
  The three places where \<^verbatim>\<open>ConsumeURL\<close> consumes the remnants of a bad URL and
  writes a BadURL token.
\<close>

definition ConsumeURL_bad :: "CodePoint list \<Rightarrow> nat \<Rightarrow> (bool \<times> nat \<times> Token option) option" where
  "ConsumeURL_bad inputStream position =
     (case ConsumeRemnantsOfBadURL inputStream position of
        None \<Rightarrow> None
      | Some (ok, position) \<Rightarrow>
          if \<not> ok then Some (False, position, None)
          else Some (True, position, Some CreateBadURL))"

function ConsumeURL_loop ::
  "CodePoint list \<Rightarrow> nat \<Rightarrow> CodePoint list \<Rightarrow> (bool \<times> nat \<times> Token option) option" where
  "ConsumeURL_loop inputStream position val =
     (if position < length inputStream then
        let next = inputStream ! position; position = position + 1 in
        if next = RIGHT_PARENTHESIS then Some (True, position, Some (CreateURL val))
        else if IsWhitespace next then
          (let position = ConsumeWhitespace_loop inputStream position in
           if position = length inputStream then Some (False, position, None)
           else
             case at inputStream position of
               None \<Rightarrow> None
             | Some following \<Rightarrow>
                 if following = RIGHT_PARENTHESIS
                 then Some (True, position + 1, Some (CreateURL val))
                 else ConsumeURL_bad inputStream position)
        else if next = QUOTATION_MARK \<or> next = APOSTROPHE \<or> next = LEFT_PARENTHESIS
                \<or> IsNonPrintable next
        then ConsumeURL_bad inputStream position
        else if next = REVERSE_SOLIDUS then
          (if AreTwoCodePointsValidEscape inputStream (position - 1) then
             case ConsumeEscapedCodePoint inputStream position of
               None \<Rightarrow> None
             | Some (ok, position', escapedCodePoint) \<Rightarrow>
                 if \<not> ok then Some (False, position', None)
                 else ConsumeURL_loop inputStream position' (val @ [escapedCodePoint])
           else ConsumeURL_bad inputStream position)
        else ConsumeURL_loop inputStream position (val @ [next])
      else Some (False, position, None))"
  by pat_completeness auto
termination
  by (relation "measure (\<lambda>(inputStream, position, val). length inputStream - position)")
     (auto dest!: ConsumeEscapedCodePoint_position)

declare ConsumeURL_loop.simps [simp del]

definition ConsumeURL :: "CodePoint list \<Rightarrow> nat \<Rightarrow> (bool \<times> nat \<times> Token option) option" where
  "ConsumeURL inputStream position =
     ConsumeURL_loop inputStream (ConsumeWhitespace_loop inputStream position) []"

text \<open>The whitespace loop of \<^verbatim>\<open>ConsumeIdentLikeToken\<close>, which stops one before the last.\<close>

function ConsumeIdentLikeToken_loop :: "CodePoint list \<Rightarrow> nat \<Rightarrow> nat" where
  "ConsumeIdentLikeToken_loop inputStream position =
     (if position + 1 < length inputStream \<and> IsWhitespace (inputStream ! position)
         \<and> IsWhitespace (inputStream ! (position + 1))
      then ConsumeIdentLikeToken_loop inputStream (position + 1)
      else position)"
  by pat_completeness auto
termination
  by (relation "measure (\<lambda>(inputStream, position). length inputStream - position)") auto

declare ConsumeIdentLikeToken_loop.simps [simp del]

definition ConsumeIdentLikeToken ::
  "CodePoint list \<Rightarrow> nat \<Rightarrow> (bool \<times> nat \<times> Token option) option" where
  "ConsumeIdentLikeToken inputStream position = do {
     (ok, position, string) \<leftarrow> ConsumeIdentSequence inputStream position;
     if \<not> ok then Some (False, position, None)
     else do {
       string \<leftarrow> string;
       if length string = 3
          \<and> (string ! 0 = LATIN_SMALL_LETTER_U \<or> string ! 0 = LATIN_CAPITAL_LETTER_U)
          \<and> (string ! 1 = LATIN_SMALL_LETTER_R \<or> string ! 1 = LATIN_CAPITAL_LETTER_R)
          \<and> (string ! 2 = LATIN_SMALL_LETTER_L \<or> string ! 2 = LATIN_CAPITAL_LETTER_L)
          \<and> position < length inputStream
          \<and> inputStream ! position = LEFT_PARENTHESIS
       then
         let position = ConsumeIdentLikeToken_loop inputStream (position + 1) in
         if position + 1 < length inputStream
            \<and> (let next = inputStream ! position; afterNext = inputStream ! (position + 1)
                in (next = QUOTATION_MARK \<and> afterNext = APOSTROPHE)
                   \<or> (IsWhitespace next
                       \<and> (afterNext = QUOTATION_MARK \<or> afterNext = APOSTROPHE)))
         then Some (True, position, Some (CreateFunction string))
         else ConsumeURL inputStream position
       else if position < length inputStream \<and> inputStream ! position = LEFT_PARENTHESIS
       then Some (True, position, Some (CreateFunction string))
       else Some (True, position, Some (CreateIdent string))
     }
   }"

definition ConsumeToken ::
  "CodePoint list \<Rightarrow> nat \<Rightarrow> (bool \<times> nat \<times> Token option) option" where
  "ConsumeToken inputStream position =
     (let (ok, position) = ConsumeComments inputStream position in
      if \<not> ok then Some (False, position, None)
      else if position = length inputStream then Some (True, position, None)
      else do {
        nextCodePoint \<leftarrow> at inputStream position;
        let position = position + 1;
        if IsWhitespace nextCodePoint then
          (let (position, token) = ConsumeWhitespace inputStream position
           in Some (True, position, Some token))
        else if nextCodePoint = QUOTATION_MARK then
          ConsumeStringToken inputStream position nextCodePoint
        else if nextCodePoint = NUMBER_SIGN then do {
          following \<leftarrow> at inputStream position;
          if IsIdent following \<or> AreTwoCodePointsValidEscape inputStream position then do {
            let isID = DoThreeCodePointsStartIndentSequence inputStream position;
            (ok, position, ident) \<leftarrow> ConsumeIdentSequence inputStream position;
            if \<not> ok then Some (False, position, None)
            else do {
              ident \<leftarrow> ident;
              Some (True, position, Some (CreateHash (HashTokenValue ident isID)))
            }
          }
          else Some (True, position, Some (CreateDelim nextCodePoint))
        }
        else if nextCodePoint = APOSTROPHE then
          ConsumeStringToken inputStream position nextCodePoint
        else if nextCodePoint = LEFT_PARENTHESIS then
          Some (True, position, Some CreateLeftParenthesis)
        else if nextCodePoint = RIGHT_PARENTHESIS then
          Some (True, position, Some CreateRightParenthesis)
        else if nextCodePoint = PLUS_SIGN then
          (if DoThreeCodePointsStartNumber inputStream (position - 1)
           then ConsumeNumericToken inputStream (position - 1)
           else Some (True, position, Some (CreateDelim nextCodePoint)))
        else if nextCodePoint = COMMA then Some (True, position, Some CreateComma)
        else if nextCodePoint = HYPHEN_MINUS then
          (if DoThreeCodePointsStartNumber inputStream (position - 1)
           then ConsumeNumericToken inputStream (position - 1)
           else if position + 1 < length inputStream
                   \<and> inputStream ! position = HYPHEN_MINUS
                   \<and> inputStream ! (position + 1) = GREATER_THAN_SIGN
           then Some (True, position + 2, Some CreateCDC)
           else if DoThreeCodePointsStartIndentSequence inputStream (position - 1)
           then ConsumeIdentLikeToken inputStream (position - 1)
           else Some (True, position, Some (CreateDelim nextCodePoint)))
        else if nextCodePoint = FULL_STOP then
          (if DoThreeCodePointsStartNumber inputStream (position - 1)
           then ConsumeNumericToken inputStream (position - 1)
           else Some (True, position, Some (CreateDelim nextCodePoint)))
        else if nextCodePoint = COLON then Some (True, position, Some CreateColon)
        else if nextCodePoint = SEMI_COLON then Some (True, position, Some CreateSemiColon)
        else if nextCodePoint = LESS_THAN_SIGN then
          (if position + 2 < length inputStream
              \<and> inputStream ! position = EXCLAMATION_MARK
              \<and> inputStream ! (position + 1) = HYPHEN_MINUS
              \<and> inputStream ! (position + 2) = HYPHEN_MINUS
           then Some (True, position + 3, Some CreateCDO)
           else Some (True, position, Some (CreateDelim nextCodePoint)))
        else if nextCodePoint = COMMERCIAL_AT then
          (if DoThreeCodePointsStartIndentSequence inputStream (position - 1) then do {
             (ok, position, ident) \<leftarrow> ConsumeIdentSequence inputStream (position - 1);
             if \<not> ok then Some (False, position, None)
             else do {
               ident \<leftarrow> ident;
               Some (True, position, Some (CreateAtKeyword ident))
             }
           }
           else Some (True, position, Some (CreateDelim nextCodePoint)))
        else if nextCodePoint = LEFT_SQUARE_BRACKET then
          Some (True, position, Some CreateLeftSquareBracket)
        else if nextCodePoint = LEFT_CURLY_BRACKET then
          Some (True, position, Some CreateLeftCurlyBracket)
        else if nextCodePoint = RIGHT_CURLY_BRACKET then
          Some (True, position, Some CreateRightCurlyBracket)
        else if IsDigit nextCodePoint then ConsumeNumericToken inputStream (position - 1)
        else if IsIdentStart nextCodePoint then ConsumeIdentLikeToken inputStream (position - 1)
        else Some (True, position, Some (CreateDelim nextCodePoint))
      })"


subsection \<open>The cursor never moves back\<close>

text \<open>
  Each consumer returns a cursor at or after the one it was given, and
  \<^verbatim>\<open>ConsumeToken\<close> moves it forward whenever it returns a token. This is what makes
  the loop of \<^verbatim>\<open>TokenizeCodePoints\<close> terminate.
\<close>

lemma ConsumeComments_loop_position:
  "ConsumeComments_loop inputStream position b = (ok, position') \<Longrightarrow> position \<le> position'"
proof (induction inputStream position b rule: ConsumeComments_loop.induct)
  case (1 inputStream position isPreviousAsterisk)
  from "1.prems" show ?case
    unfolding ConsumeComments_loop.simps [of inputStream position isPreviousAsterisk]
    using "1.IH" by (auto simp add: Let_def split: if_splits dest: Suc_leD)
qed

lemma ConsumeComments_position:
  "ConsumeComments inputStream position = (ok, position') \<Longrightarrow> position \<le> position'"
  by (auto simp add: ConsumeComments_def split: if_splits dest: ConsumeComments_loop_position)

lemma ConsumeWhitespace_loop_position:
  "position \<le> ConsumeWhitespace_loop inputStream position"
proof (induction inputStream position rule: ConsumeWhitespace_loop.induct)
  case (1 inputStream position)
  then show ?case
    by (subst ConsumeWhitespace_loop.simps) (auto simp add: le_Suc_eq dest: Suc_leD)
qed

lemma ConsumeStringToken_loop_position:
  "ConsumeStringToken_loop inputStream position val e = Some (True, position', t)
   \<Longrightarrow> position < position'"
proof (induction inputStream position val e rule: ConsumeStringToken_loop.induct)
  case (1 inputStream position val endingCodePoint)
  from "1.prems" show ?case
    unfolding ConsumeStringToken_loop.simps [of inputStream position val endingCodePoint]
    using "1.IH"
    by (fastforce simp add: Let_def split: if_splits option.splits
             dest!: ConsumeEscapedCodePoint_position)
qed

lemma ConsumeIdentSequence_loop_position:
  "ConsumeIdentSequence_loop inputStream position r = Some (ok, position', res)
   \<Longrightarrow> position \<le> position'"
proof (induction inputStream position r rule: ConsumeIdentSequence_loop.induct)
  case (1 inputStream position resultLocal)
  from "1.prems" show ?case
    unfolding ConsumeIdentSequence_loop.simps [of inputStream position resultLocal]
    using "1.IH"
    by (fastforce simp add: Let_def split: if_splits option.splits
             dest!: ConsumeEscapedCodePoint_position)
qed

lemma ConsumeIdentSequence_loop_progress:
  assumes "ConsumeIdentSequence_loop inputStream position r = Some (ok, position', res)"
    and "position < length inputStream" and "IsIdent (inputStream ! position)"
  shows "position < position'"
  using assms
  unfolding ConsumeIdentSequence_loop.simps [of inputStream position r]
  by (auto simp add: Let_def dest!: ConsumeIdentSequence_loop_position)

lemma ConsumeNumber_digits_position:
  "ConsumeNumber_digits inputStream position repr = (position', repr') \<Longrightarrow> position \<le> position'"
proof (induction inputStream position repr rule: ConsumeNumber_digits.induct)
  case (1 inputStream position repr)
  from "1.prems" show ?case
    unfolding ConsumeNumber_digits.simps [of inputStream position repr]
    using "1.IH" by (auto split: if_splits dest: Suc_leD)
qed

lemma ConsumeNumber_digits_progress:
  assumes "ConsumeNumber_digits inputStream position repr = (position', repr')"
    and "position < length inputStream" and "IsDigit (inputStream ! position)"
  shows "position < position'"
  using assms
  unfolding ConsumeNumber_digits.simps [of inputStream position repr]
  by (auto dest!: ConsumeNumber_digits_position)

lemma ConsumeRemnantsOfBadURL_position:
  "ConsumeRemnantsOfBadURL inputStream position = Some (ok, position') \<Longrightarrow> position \<le> position'"
proof (induction inputStream position rule: ConsumeRemnantsOfBadURL.induct)
  case (1 inputStream position)
  from "1.prems" show ?case
    unfolding ConsumeRemnantsOfBadURL.simps [of inputStream position]
    using "1.IH"
    by (fastforce split: if_splits option.splits dest!: ConsumeEscapedCodePoint_position)
qed

lemma ConsumeURL_bad_position:
  "ConsumeURL_bad inputStream position = Some (ok, position', t) \<Longrightarrow> position \<le> position'"
  by (auto simp add: ConsumeURL_bad_def split: option.splits if_splits
           dest!: ConsumeRemnantsOfBadURL_position)

lemma ConsumeURL_loop_position:
  "ConsumeURL_loop inputStream position val = Some (ok, position', t) \<Longrightarrow> position \<le> position'"
proof (induction inputStream position val rule: ConsumeURL_loop.induct)
  case (1 inputStream position val)
  have ws: "Suc position \<le> ConsumeWhitespace_loop inputStream (Suc position)"
    by (rule ConsumeWhitespace_loop_position)
  from "1.prems" show ?case
    unfolding ConsumeURL_loop.simps [of inputStream position val]
    using "1.IH" ws
    by (fastforce simp add: Let_def at_def split: if_splits option.splits
             dest!: ConsumeEscapedCodePoint_position ConsumeURL_bad_position)
qed

lemma ConsumeIdentLikeToken_loop_position:
  "position \<le> ConsumeIdentLikeToken_loop inputStream position"
proof (induction inputStream position rule: ConsumeIdentLikeToken_loop.induct)
  case (1 inputStream position)
  then show ?case
    by (subst ConsumeIdentLikeToken_loop.simps) (auto dest: Suc_leD)
qed

lemma ConsumeNumber_fraction_position:
  "ConsumeNumber_fraction inputStream position repr b = (position', repr', b')
   \<Longrightarrow> position \<le> position'"
  by (auto simp add: ConsumeNumber_fraction_def split: if_splits prod.splits
           dest!: ConsumeNumber_digits_position)

lemma ConsumeNumber_fraction_progress:
  "ConsumeNumber_fraction inputStream position repr b = (position', repr', b')
   \<Longrightarrow> position + 1 < length inputStream \<Longrightarrow> inputStream ! position = FULL_STOP
   \<Longrightarrow> IsDigit (inputStream ! (position + 1)) \<Longrightarrow> position < position'"
  by (auto simp add: ConsumeNumber_fraction_def split: if_splits prod.splits
           dest!: ConsumeNumber_digits_position)

lemma ConsumeNumber_exponent_position:
  "ConsumeNumber_exponent inputStream position repr b = (position', repr', b')
   \<Longrightarrow> position \<le> position'"
  by (auto simp add: ConsumeNumber_exponent_def split: if_splits prod.splits
           dest!: ConsumeNumber_digits_position)

lemma ConsumeNumber_progress:
  assumes "ConsumeNumber inputStream position = Some (ok, position', n)"
    and "DoThreeCodePointsStartNumber inputStream position"
  shows "position < position'"
proof -
  from assms(2) have inb: "position < length inputStream"
    by (simp add: DoThreeCodePointsStartNumber_def split: if_splits)
  define first where "first = inputStream ! position"
  define position1 where
    "position1 = (if first = PLUS_SIGN \<or> first = HYPHEN_MINUS then position + 1 else position)"
  define repr1 where
    "repr1 = (if first = PLUS_SIGN \<or> first = HYPHEN_MINUS then [first] else [])"
  obtain position2 repr2 where d: "ConsumeNumber_digits inputStream position1 repr1 = (position2, repr2)"
    by (cases "ConsumeNumber_digits inputStream position1 repr1")
  obtain position3 repr3 b3 where f: "ConsumeNumber_fraction inputStream position2 repr2 True = (position3, repr3, b3)"
    by (cases "ConsumeNumber_fraction inputStream position2 repr2 True")
  obtain position4 repr4 b4 where e: "ConsumeNumber_exponent inputStream position3 repr3 b3 = (position4, repr4, b4)"
    by (cases "ConsumeNumber_exponent inputStream position3 repr3 b3")
  have p4: "position' = position4"
    using assms(1) inb d f e
    by (auto simp add: ConsumeNumber_def Let_def at_def first_def [symmetric]
               position1_def repr1_def
             split: if_splits Option.bind_splits)
  have le01: "position \<le> position1" by (simp add: position1_def)
  have le12: "position1 \<le> position2" using d by (rule ConsumeNumber_digits_position)
  have le23: "position2 \<le> position3" using f by (rule ConsumeNumber_fraction_position)
  have le34: "position3 \<le> position4" using e by (rule ConsumeNumber_exponent_position)
  show ?thesis
  proof (cases "first = PLUS_SIGN \<or> first = HYPHEN_MINUS")
    case True
    then show ?thesis using le12 le23 le34 p4 by (simp add: position1_def)
  next
    case sign: False
    then have p1: "position1 = position" by (simp add: position1_def)
    show ?thesis
    proof (cases "first = FULL_STOP")
      case False
      with sign assms(2) inb have "IsDigit (inputStream ! position)"
        by (simp add: DoThreeCodePointsStartNumber_def first_def Let_def)
      with d p1 inb have "position < position2"
        by (auto dest: ConsumeNumber_digits_progress)
      with le23 le34 p4 show ?thesis by simp
    next
      case dot: True
      with assms(2) inb have nd: "position + 1 < length inputStream"
          "IsDigit (inputStream ! (position + 1))"
        by (simp_all add: DoThreeCodePointsStartNumber_def first_def Let_def)
      have "\<not> IsDigit (inputStream ! position)"
        using dot by (simp add: first_def IsDigit_def)
      with d p1 have p2: "position2 = position"
        unfolding ConsumeNumber_digits.simps [of inputStream position1 repr1] by simp
      from f nd dot have "position2 < position3"
        unfolding p2 first_def by (auto dest: ConsumeNumber_fraction_progress)
      with p2 le34 p4 show ?thesis by simp
    qed
  qed
qed

lemma ConsumeNumericToken_progress:
  assumes "ConsumeNumericToken inputStream position = Some (ok, position', t)"
    and "DoThreeCodePointsStartNumber inputStream position"
  shows "position < position'"
  using assms
  by (auto simp add: ConsumeNumericToken_def ConsumeIdentSequence_def
           split: if_splits prod.splits Option.bind_splits
           dest!: ConsumeNumber_progress ConsumeIdentSequence_loop_position)

lemma ConsumeURL_position:
  "ConsumeURL inputStream position = Some (ok, position', t) \<Longrightarrow> position \<le> position'"
  using ConsumeWhitespace_loop_position [of position inputStream]
  by (auto simp add: ConsumeURL_def dest!: ConsumeURL_loop_position)

lemma ConsumeIdentLikeToken_progress:
  assumes "ConsumeIdentLikeToken inputStream position = Some (ok, position', t)"
    and "position < length inputStream" and "IsIdent (inputStream ! position)"
  shows "position < position'"
proof -
  obtain ok1 position1 string where
    i: "ConsumeIdentSequence_loop inputStream position [] = Some (ok1, position1, string)"
    using assms(1)
    by (auto simp add: ConsumeIdentLikeToken_def ConsumeIdentSequence_def
             split: Option.bind_splits)
  from i assms(2,3) have lt: "position < position1"
    by (rule ConsumeIdentSequence_loop_progress)
  have "position1 \<le> position'"
    using assms(1) i ConsumeIdentLikeToken_loop_position [of "Suc position1" inputStream]
    by (auto simp add: ConsumeIdentLikeToken_def ConsumeIdentSequence_def Let_def
             split: if_splits Option.bind_splits dest!: ConsumeURL_position)
  with lt show ?thesis by simp
qed

lemma IsDigit_starts_number:
  "position < length inputStream \<Longrightarrow> IsDigit (inputStream ! position)
   \<Longrightarrow> DoThreeCodePointsStartNumber inputStream position"
  by (auto simp add: DoThreeCodePointsStartNumber_def Let_def IsDigit_def)

lemma COMMERCIAL_AT_not_ident_start:
  "inputStream ! position = COMMERCIAL_AT
   \<Longrightarrow> \<not> DoThreeCodePointsStartIndentSequence inputStream position"
  by (simp add: DoThreeCodePointsStartIndentSequence_def Let_def IsIdentStart_def
        IsLetter_def IsUppercaseLetter_def IsLowercaseLetter_def IsNonASCII_def)

lemma IsIdent_HYPHEN_MINUS: "IsIdent HYPHEN_MINUS"
  by (simp add: IsIdent_def)

lemma ConsumeToken_progress:
  assumes "ConsumeToken inputStream position = Some (True, position', Some t)"
  shows "position < position'"
proof -
  obtain ok1 position1 where c: "ConsumeComments inputStream position = (ok1, position1)"
    by (cases "ConsumeComments inputStream position")
  then have le: "position \<le> position1" by (rule ConsumeComments_position)
  from assms c have inb: "position1 < length inputStream"
    by (auto simp add: ConsumeToken_def at_def split: if_splits Option.bind_splits)
  define nextCodePoint where "nextCodePoint = inputStream ! position1"
  note num = ConsumeNumericToken_progress [of inputStream position1]
  have dig: "\<And>ok p tok. IsDigit nextCodePoint \<Longrightarrow>
      ConsumeNumericToken inputStream position1 = Some (ok, p, tok) \<Longrightarrow> position1 < p"
    using IsDigit_starts_number [OF inb] unfolding nextCodePoint_def
    by (blast intro: ConsumeNumericToken_progress)
  note idl = ConsumeIdentLikeToken_progress [of inputStream position1, OF _ inb]
  have ws: "Suc position1 \<le> ConsumeWhitespace_loop inputStream (Suc position1)"
    by (rule ConsumeWhitespace_loop_position)
  have "position1 < position'"
    using assms c inb ws
    by (auto simp add: ConsumeToken_def at_def Let_def ConsumeWhitespace_def
               ConsumeStringToken_def ConsumeIdentSequence_def
               nextCodePoint_def [symmetric] COMMERCIAL_AT_not_ident_start
             split: if_splits Option.bind_splits prod.splits
             dest!: ConsumeStringToken_loop_position ConsumeIdentSequence_loop_position
             dest: num dig idl
             simp add: IsIdent_def)
  with le show ?thesis by simp
qed

text \<open>
  \<^verbatim>\<open>TokenizeCodePoints\<close> pushes every token straight into the caller's \<^verbatim>\<open>output\<close>
  (the local \<^verbatim>\<open>outputLocal\<close> is never used), so on failure the tokens pushed so far
  stay there. When \<^verbatim>\<open>ConsumeToken\<close> returns true without writing a token (at the end
  of the input, after a comment), the loop still moves the unwritten buffer into
  \<^verbatim>\<open>output\<close>: a read of an uninitialised object, \<open>None\<close> here.
\<close>

function TokenizeCodePoints_loop ::
  "CodePoint list \<Rightarrow> nat \<Rightarrow> Token list \<Rightarrow> (bool \<times> Token list) option" where
  "TokenizeCodePoints_loop inputStream position output =
     (if position < length inputStream then
        case ConsumeToken inputStream position of
          None \<Rightarrow> None
        | Some (ok, position', token) \<Rightarrow>
            if \<not> ok then Some (False, output)
            else
              case token of
                None \<Rightarrow> None
              | Some t \<Rightarrow> TokenizeCodePoints_loop inputStream position' (output @ [t])
      else Some (True, output))"
  by pat_completeness auto
termination
  by (relation "measure (\<lambda>(inputStream, position, out). length inputStream - position)")
     (auto dest!: ConsumeToken_progress)

declare TokenizeCodePoints_loop.simps [simp del]

definition TokenizeCodePoints :: "CodePoint list \<Rightarrow> Token list \<Rightarrow> (bool \<times> Token list) option" where
  "TokenizeCodePoints inputStream output = TokenizeCodePoints_loop inputStream 0 output"


section \<open>The decoder's output\<close>

text \<open>
  A code point is \<open>preprocessed\<close> when it is none of the values the input preprocessing
  removes. \<open>utf8_inv\<close> is the invariant of the decoder's state between two bytes: for
  each number of continuation bytes still expected, the range the accumulated code point
  lies in, and the window that excludes the surrogates (after 0xED) and the overlong
  forms (after 0xF0).
\<close>

definition preprocessed :: "CodePoint \<Rightarrow> bool" where
  "preprocessed c = (\<not> IsSurrogate c \<and> c \<noteq> FORM_FEED \<and> c \<noteq> CARRIAGE_RETURN \<and> c \<noteq> NULL_CODE_POINT)"

lemma IsSurrogate_unat: "IsSurrogate c = (0xD800 \<le> unat c \<and> unat c \<le> 0xDFFF)"
  by (auto simp add: IsSurrogate_def IsLeadingSurrogate_def IsTrailingSurrogate_def word_le_nat_alt)

lemma PushCodePoint_preprocessed:
  assumes "\<not> IsSurrogate c" and "list_all preprocessed out"
  shows "list_all preprocessed (snd (PushCodePoint c cr out))"
  using assms
  by (simp add: PushCodePoint_def preprocessed_def IsSurrogate_unat)

lemma REPLACEMENT_not_surrogate: "\<not> IsSurrogate REPLACEMENT"
  by (simp add: IsSurrogate_unat)

lemma unat_ucast_byte: "unat (ucast (b :: Byte) :: 32 word) = unat b"
proof -
  have "unat b < 2 ^ 32"
    using unsigned_less [of b, where ?'a = nat] by simp
  then show ?thesis
    by (simp add: unsigned_ucast_eq take_bit_nat_eq_self)
qed

lemma byte_less_256: "unat (b :: Byte) < 256"
  using unsigned_less [of b, where ?'a = nat] by simp

lemma ascii_not_surrogate: "\<not> IsSurrogate (ucast (byte :: Byte))"
  using byte_less_256 [of byte] by (simp add: IsSurrogate_unat unat_ucast_byte)

lemma and_mask_byte:
  fixes b :: Byte
  shows "unat (ucast (b AND 0x3F) :: 32 word) = unat b mod 64"
    and "unat (ucast (b AND 0x1F) :: 32 word) = unat b mod 32"
    and "unat (ucast (b AND 0xF) :: 32 word) = unat b mod 16"
    and "unat (ucast (b AND 0x7) :: 32 word) = unat b mod 8"
proof -
  have m: "(0x3F :: Byte) = mask 6" "(0x1F :: Byte) = mask 5"
          "(0xF :: Byte) = mask 4" "(0x7 :: Byte) = mask 3"
    by (simp_all add: mask_eq_exp_minus_1)
  have t: "b AND 0x3F = take_bit 6 b" "b AND 0x1F = take_bit 5 b"
          "b AND 0xF = take_bit 4 b" "b AND 0x7 = take_bit 3 b"
    unfolding m by (simp_all add: take_bit_eq_mask)
  show "unat (ucast (b AND 0x3F) :: 32 word) = unat b mod 64"
    unfolding t by (simp add: unat_ucast_byte unsigned_take_bit_eq take_bit_eq_mod unat_mod)
  show "unat (ucast (b AND 0x1F) :: 32 word) = unat b mod 32"
    unfolding t by (simp add: unat_ucast_byte unsigned_take_bit_eq take_bit_eq_mod unat_mod)
  show "unat (ucast (b AND 0xF) :: 32 word) = unat b mod 16"
    unfolding t by (simp add: unat_ucast_byte unsigned_take_bit_eq take_bit_eq_mod unat_mod)
  show "unat (ucast (b AND 0x7) :: 32 word) = unat b mod 8"
    unfolding t by (simp add: unat_ucast_byte unsigned_take_bit_eq take_bit_eq_mod unat_mod)
qed

lemma shift_disjoint: "push_bit 6 (cp::32 word) AND ucast ((b::Byte) AND 0x3F) = 0"
proof -
  have "(0x3F :: Byte) = mask 6" by (simp add: mask_eq_exp_minus_1)
  then show ?thesis
    by (auto simp add: bit_eq_iff bit_simps)
qed

lemma shift_or_unat:
  fixes cp :: "32 word" and b :: Byte
  assumes "unat cp < 2 ^ 20"
  shows "unat (push_bit 6 cp OR ucast (b AND 0x3F)) = unat cp * 64 + unat b mod 64"
proof -
  have m: "unat (push_bit 6 cp) = unat cp * 64"
    using assms by (simp add: push_bit_eq_mult unat_word_ariths)
  have "push_bit 6 cp OR ucast (b AND 0x3F) = push_bit 6 cp + ucast (b AND 0x3F)"
    using shift_disjoint [of cp b] by (simp add: disjunctive_add_eq_or)
  moreover have "unat (push_bit 6 cp + (ucast (b AND 0x3F) :: 32 word))
               = unat (push_bit 6 cp) + unat (ucast (b AND 0x3F) :: 32 word)"
    using assms m and_mask_byte(1) [of b] by (simp add: unat_word_ariths)
  ultimately show ?thesis using m and_mask_byte(1) [of b] by simp
qed



lemma mod64_low: "128 \<le> (b::nat) \<Longrightarrow> b \<le> 159 \<Longrightarrow> b mod 64 \<le> 31"
proof -
  assume a: "128 \<le> b" "b \<le> 159"
  then have "b = (b - 128) + 2 * 64" by simp
  then have "b mod 64 = (b - 128) mod 64" by (metis mod_mult_self1)
  with a show ?thesis by simp
qed

lemma mod64_high: "144 \<le> (b::nat) \<Longrightarrow> b \<le> 191 \<Longrightarrow> 16 \<le> b mod 64"
proof -
  assume a: "144 \<le> b" "b \<le> 191"
  then have "b = (b - 128) + 2 * 64" by simp
  then have "b mod 64 = (b - 128) mod 64" by (metis mod_mult_self1)
  with a show ?thesis by simp
qed

lemma mod16_ED: "224 \<le> (b::nat) \<Longrightarrow> b \<le> 239 \<Longrightarrow> (b mod 16 = 13) = (b = 237)"
proof -
  assume a: "224 \<le> b" "b \<le> 239"
  then have "b = (b - 224) + 14 * 16" by simp
  then have "b mod 16 = (b - 224) mod 16" by (metis mod_mult_self1)
  with a show ?thesis by auto
qed

lemma mod8_F0: "240 \<le> (b::nat) \<Longrightarrow> b \<le> 244 \<Longrightarrow> (b mod 8 = 0) = (b = 240)"
proof -
  assume a: "240 \<le> b" "b \<le> 244"
  then have "b = (b - 240) + 30 * 8" by simp
  then have "b mod 8 = (b - 240) mod 8" by (metis mod_mult_self1)
  with a show ?thesis by auto
qed

definition utf8_inv :: "utf8_state \<Rightarrow> bool" where
  "utf8_inv st =
     (let c = unat (utf8_codePoint st); lo = unat (utf8_lowerBoundary st); hi = unat (utf8_upperBoundary st)
      in (utf8_bytesNeeded st = 0 \<and> utf8_bytesSeen st = 0 \<and> lo = 0x80 \<and> hi = 0xBF)
       \<or> (utf8_bytesNeeded st = 1 \<and> utf8_bytesSeen st = 0 \<and> c < 32)
       \<or> (utf8_bytesNeeded st = 2 \<and> utf8_bytesSeen st = 0 \<and> c < 16 \<and> (c = 13 \<longrightarrow> 0x80 \<le> lo \<and> hi \<le> 0x9F))
       \<or> (utf8_bytesNeeded st = 2 \<and> utf8_bytesSeen st = 1 \<and> c < 1024 \<and> \<not> (864 \<le> c \<and> c < 896))
       \<or> (utf8_bytesNeeded st = 3 \<and> utf8_bytesSeen st = 0 \<and> c < 8 \<and> (c = 0 \<longrightarrow> 0x90 \<le> lo \<and> hi \<le> 0xBF))
       \<or> (utf8_bytesNeeded st = 3 \<and> utf8_bytesSeen st = 1 \<and> 16 \<le> c \<and> c < 512)
       \<or> (utf8_bytesNeeded st = 3 \<and> utf8_bytesSeen st = 2 \<and> 1024 \<le> c \<and> c < 32768))"

lemma utf8_inv_initial: "utf8_inv utf8_initial"
  by (simp add: utf8_inv_def utf8_initial_def)

lemma utf8_inv_reset:
  "utf8_inv (st\<lparr>utf8_codePoint := 0, utf8_bytesNeeded := 0, utf8_bytesSeen := 0,
                 utf8_lowerBoundary := 0x80, utf8_upperBoundary := 0xBF\<rparr>)"
  by (simp add: utf8_inv_def)

lemma utf8_inv_lead2:
  fixes byte :: Byte
  assumes "utf8_inv st" "utf8_bytesNeeded st = 0"
  shows "utf8_inv (st\<lparr>utf8_bytesNeeded := 1, utf8_codePoint := ucast (byte AND 0x1F)\<rparr>)"
  using assms by (simp add: utf8_inv_def and_mask_byte)

lemma utf8_inv_lead3:
  fixes byte :: Byte
  assumes "utf8_inv st" "utf8_bytesNeeded st = 0" "byte \<ge> 0xE0" "byte \<le> 0xEF"
  shows "utf8_inv ((if byte = 0xE0 then st\<lparr>utf8_lowerBoundary := 0xA0\<rparr>
                        else if byte = 0xED then st\<lparr>utf8_upperBoundary := 0x9F\<rparr>
                        else st)\<lparr>utf8_bytesNeeded := 2, utf8_codePoint := ucast (byte AND 0xF)\<rparr>)"
proof -
  from assms(3,4) have b: "224 \<le> unat byte" "unat byte \<le> 239"
    by (simp_all add: word_le_nat_alt)
  have e: "byte = 0xED \<longleftrightarrow> unat byte = 237" "byte = 0xE0 \<longleftrightarrow> unat byte = 224"
    by (simp_all add: word_unat_eq_iff)
  from b have "unat byte mod 16 = 13 \<longleftrightarrow> unat byte = 237" by (rule mod16_ED)
  with assms(1,2) b show ?thesis
    by (auto simp add: utf8_inv_def and_mask_byte e)
qed

lemma utf8_inv_lead4:
  fixes byte :: Byte
  assumes "utf8_inv st" "utf8_bytesNeeded st = 0" "byte \<ge> 0xF0" "byte \<le> 0xF4"
  shows "utf8_inv ((if byte = 0xF0 then st\<lparr>utf8_lowerBoundary := 0x90\<rparr>
                        else if byte = 0xF4 then st\<lparr>utf8_upperBoundary := 0x8F\<rparr>
                        else st)\<lparr>utf8_bytesNeeded := 3, utf8_codePoint := ucast (byte AND 0x7)\<rparr>)"
proof -
  from assms(3,4) have b: "240 \<le> unat byte" "unat byte \<le> 244"
    by (simp_all add: word_le_nat_alt)
  have e: "byte = 0xF0 \<longleftrightarrow> unat byte = 240" "byte = 0xF4 \<longleftrightarrow> unat byte = 244"
    by (simp_all add: word_unat_eq_iff)
  from b have "unat byte mod 8 = 0 \<longleftrightarrow> unat byte = 240" by (rule mod8_F0)
  moreover from b have "unat byte mod 8 < 8" by simp
  ultimately show ?thesis using assms(1,2) b
    by (auto simp add: utf8_inv_def and_mask_byte e)
qed

lemma utf8_inv_bound: "utf8_inv st \<Longrightarrow> utf8_bytesNeeded st \<noteq> 0 \<Longrightarrow> unat (utf8_codePoint st) < 2 ^ 20"
  by (auto simp add: utf8_inv_def Let_def)

lemma utf8_continuation:
  fixes byte :: Byte
  assumes inv: "utf8_inv st" and needed: "utf8_bytesNeeded st \<noteq> 0"
    and lo: "\<not> byte < utf8_lowerBoundary st" and hi: "\<not> byte > utf8_upperBoundary st"
    and st1: "st1 = st\<lparr>utf8_lowerBoundary := 0x80, utf8_upperBoundary := 0xBF,
                       utf8_codePoint := push_bit 6 (utf8_codePoint st) OR ucast (byte AND 0x3F),
                       utf8_bytesSeen := utf8_bytesSeen st + 1\<rparr>"
  shows "utf8_bytesSeen st1 \<noteq> utf8_bytesNeeded st1 \<Longrightarrow> utf8_inv st1"
    and "utf8_bytesSeen st1 = utf8_bytesNeeded st1 \<Longrightarrow> \<not> IsSurrogate (utf8_codePoint st1)"
proof -
  define c where "c = unat (utf8_codePoint st)"
  define x where "x = unat byte mod 64"
  have cp: "unat (utf8_codePoint st1) = c * 64 + x"
    using utf8_inv_bound [OF inv needed] by (simp add: st1 shift_or_unat c_def x_def)
  have x: "x < 64" by (simp add: x_def)
  from lo hi have b: "unat (utf8_lowerBoundary st) \<le> unat byte" "unat byte \<le> unat (utf8_upperBoundary st)"
    by (simp_all add: word_le_nat_alt word_less_nat_alt)
  have x1: "128 \<le> unat (utf8_lowerBoundary st) \<Longrightarrow> unat (utf8_upperBoundary st) \<le> 159 \<Longrightarrow> x \<le> 31"
    using b unfolding x_def by (intro mod64_low) simp_all
  have x2: "144 \<le> unat (utf8_lowerBoundary st) \<Longrightarrow> unat (utf8_upperBoundary st) \<le> 191 \<Longrightarrow> 16 \<le> x"
    using b unfolding x_def by (intro mod64_high) simp_all
  note facts = cp x x1 x2
  from inv needed consider
      (a) "utf8_bytesNeeded st = 1" "utf8_bytesSeen st = 0" "c < 32"
    | (b) "utf8_bytesNeeded st = 2" "utf8_bytesSeen st = 0" "c < 16"
          "c = 13 \<longrightarrow> 0x80 \<le> unat (utf8_lowerBoundary st) \<and> unat (utf8_upperBoundary st) \<le> 0x9F"
    | (c) "utf8_bytesNeeded st = 2" "utf8_bytesSeen st = 1" "c < 1024" "\<not> (864 \<le> c \<and> c < 896)"
    | (d) "utf8_bytesNeeded st = 3" "utf8_bytesSeen st = 0" "c < 8"
          "c = 0 \<longrightarrow> 0x90 \<le> unat (utf8_lowerBoundary st) \<and> unat (utf8_upperBoundary st) \<le> 0xBF"
    | (e) "utf8_bytesNeeded st = 3" "utf8_bytesSeen st = 1" "16 \<le> c" "c < 512"
    | (f) "utf8_bytesNeeded st = 3" "utf8_bytesSeen st = 2" "1024 \<le> c" "c < 32768"
    by (auto simp add: utf8_inv_def Let_def c_def)
  then have "(utf8_bytesSeen st1 \<noteq> utf8_bytesNeeded st1 \<longrightarrow> utf8_inv st1)
           \<and> (utf8_bytesSeen st1 = utf8_bytesNeeded st1 \<longrightarrow> \<not> IsSurrogate (utf8_codePoint st1))"
  proof cases
    case a
    with facts show ?thesis by (simp add: st1 IsSurrogate_unat)
  next
    case b
    have "c * 64 + x < 1024 \<and> \<not> (864 \<le> c * 64 + x \<and> c * 64 + x < 896)"
      using b(3,4) x x1 by (cases "c = 13") auto
    with b cp show ?thesis by (simp add: st1 utf8_inv_def)
  next
    case c
    with x have "\<not> (0xD800 \<le> c * 64 + x \<and> c * 64 + x \<le> 0xDFFF)" by auto
    with c cp show ?thesis by (simp add: st1 IsSurrogate_unat)
  next
    case d
    have "16 \<le> c * 64 + x \<and> c * 64 + x < 512"
      using d(3,4) x x2 by (cases "c = 0") auto
    with d cp show ?thesis by (simp add: st1 utf8_inv_def)
  next
    case e
    with x have "1024 \<le> c * 64 + x \<and> c * 64 + x < 32768" by auto
    with e cp show ?thesis by (simp add: st1 utf8_inv_def)
  next
    case f
    with x have "\<not> (0xD800 \<le> c * 64 + x \<and> c * 64 + x \<le> 0xDFFF)" by auto
    with f cp show ?thesis by (simp add: st1 IsSurrogate_unat)
  qed
  then show "utf8_bytesSeen st1 \<noteq> utf8_bytesNeeded st1 \<Longrightarrow> utf8_inv st1"
    and "utf8_bytesSeen st1 = utf8_bytesNeeded st1 \<Longrightarrow> \<not> IsSurrogate (utf8_codePoint st1)"
    by simp_all
qed

lemma utf8_inv_done:
  fixes st1 :: utf8_state
  assumes "utf8_lowerBoundary st1 = 0x80" "utf8_upperBoundary st1 = 0xBF"
  shows "utf8_inv (st1\<lparr>utf8_codePoint := 0, utf8_bytesNeeded := 0, utf8_bytesSeen := 0\<rparr>)"
  using assms by (simp add: utf8_inv_def)


lemma UTF8Decode_loop_preprocessed:
  "utf8_inv st \<Longrightarrow> list_all preprocessed out \<Longrightarrow>
   list_all preprocessed (snd (UTF8Decode_loop input pos st cr out))"
proof (induction input pos st cr out rule: UTF8Decode_loop.induct)
  case (1 input inputPosition st isPreviousCarriageReturn out)
  note IH = "1.IH" and inv = "1.prems"(1) and out = "1.prems"(2)
  note push = PushCodePoint_preprocessed [OF _ out]
  show ?case
  proof (cases "inputPosition < length input")
    case False
    then show ?thesis
      using out push [OF REPLACEMENT_not_surrogate]
      by (subst UTF8Decode_loop.simps) simp
  next
    case inb: True
    define byte where "byte = input ! inputPosition"
    show ?thesis
    proof (cases "byte = 0")
      case True
      then show ?thesis
        using inb out push [OF REPLACEMENT_not_surrogate]
        by (subst UTF8Decode_loop.simps) (simp add: byte_def)
    next
      case nz: False
      show ?thesis
      proof (cases "utf8_bytesNeeded st = 0")
        case need0: True
        consider (ascii) "byte \<ge> 0x00 \<and> byte \<le> 0x7F"
          | (two) "\<not> (byte \<ge> 0x00 \<and> byte \<le> 0x7F)" "byte \<ge> 0xC2 \<and> byte \<le> 0xDF"
          | (three) "\<not> (byte \<ge> 0x00 \<and> byte \<le> 0x7F)" "\<not> (byte \<ge> 0xC2 \<and> byte \<le> 0xDF)"
                    "byte \<ge> 0xE0 \<and> byte \<le> 0xEF"
          | (four) "\<not> (byte \<ge> 0x00 \<and> byte \<le> 0x7F)" "\<not> (byte \<ge> 0xC2 \<and> byte \<le> 0xDF)"
                    "\<not> (byte \<ge> 0xE0 \<and> byte \<le> 0xEF)" "byte \<ge> 0xF0 \<and> byte \<le> 0xF4"
          | (bad) "\<not> (byte \<ge> 0x00 \<and> byte \<le> 0x7F)" "\<not> (byte \<ge> 0xC2 \<and> byte \<le> 0xDF)"
                    "\<not> (byte \<ge> 0xE0 \<and> byte \<le> 0xEF)" "\<not> (byte \<ge> 0xF0 \<and> byte \<le> 0xF4)"
          by blast
        then show ?thesis
        proof cases
          case ascii
          obtain cr' out' where p: "PushCodePoint (ucast byte) isPreviousCarriageReturn out = (cr', out')"
            by (cases "PushCodePoint (ucast byte) isPreviousCarriageReturn out")
          have "list_all preprocessed out'"
            using push [OF ascii_not_surrogate, of byte isPreviousCarriageReturn] p by simp
          from IH(1) [OF inb byte_def nz need0 ascii refl p [symmetric] inv this]
          show ?thesis
            using inb nz need0 ascii p
            by (subst UTF8Decode_loop.simps) (simp add: byte_def [symmetric])
        next
          case two
          have "\<not> byte \<le> 0x7F" "0xC2 \<le> byte" "byte \<le> 0xDF"
            using two(2) by (simp_all add: word_le_nat_alt)
          moreover note IH(2) [OF inb byte_def nz need0 two utf8_inv_lead2 [OF inv need0] out]
          ultimately show ?thesis
            using inb nz need0
            by (subst UTF8Decode_loop.simps) (simp add: byte_def [symmetric])
        next
          case three
          from three(3) have "utf8_inv ((if byte = 0xE0 then st\<lparr>utf8_lowerBoundary := 0xA0\<rparr>
                        else if byte = 0xED then st\<lparr>utf8_upperBoundary := 0x9F\<rparr>
                        else st)\<lparr>utf8_bytesNeeded := 2, utf8_codePoint := ucast (byte AND 0xF)\<rparr>)"
            by (intro utf8_inv_lead3 [OF inv need0]) simp_all
          moreover have "\<not> byte \<le> 0x7F" "\<not> byte \<le> 0xDF" "0xE0 \<le> byte" "byte \<le> 0xEF"
            using three(3) by (simp_all add: word_le_nat_alt)
          moreover note IH(3) [OF inb byte_def nz need0 three refl _ out]
          ultimately show ?thesis
            using inb nz need0
            by (subst UTF8Decode_loop.simps) (simp add: byte_def [symmetric] Let_def)
        next
          case four
          from four(4) have "utf8_inv ((if byte = 0xF0 then st\<lparr>utf8_lowerBoundary := 0x90\<rparr>
                        else if byte = 0xF4 then st\<lparr>utf8_upperBoundary := 0x8F\<rparr>
                        else st)\<lparr>utf8_bytesNeeded := 3, utf8_codePoint := ucast (byte AND 0x7)\<rparr>)"
            by (intro utf8_inv_lead4 [OF inv need0]) simp_all
          moreover have "\<not> byte \<le> 0x7F" "\<not> byte \<le> 0xDF" "\<not> byte \<le> 0xEF" "0xF0 \<le> byte" "byte \<le> 0xF4"
            using four(4) by (simp_all add: word_le_nat_alt)
          moreover note IH(4) [OF inb byte_def nz need0 four refl _ out]
          ultimately show ?thesis
            using inb nz need0
            by (subst UTF8Decode_loop.simps) (simp add: byte_def [symmetric] Let_def)
        next
          case bad
          obtain cr' out' where p: "PushCodePoint REPLACEMENT isPreviousCarriageReturn out = (cr', out')"
            by (cases "PushCodePoint REPLACEMENT isPreviousCarriageReturn out")
          have "list_all preprocessed out'"
            using push [OF REPLACEMENT_not_surrogate, of isPreviousCarriageReturn] p by simp
          from bad have c: "(byte \<le> 0x7F) = False" "(0xC2 \<le> byte \<and> byte \<le> 0xDF) = False"
              "(0xE0 \<le> byte \<and> byte \<le> 0xEF) = False" "(0xF0 \<le> byte \<and> byte \<le> 0xF4) = False"
            by simp_all
          from IH(5) [OF inb byte_def nz need0 bad refl p [symmetric] inv \<open>list_all preprocessed out'\<close>]
          show ?thesis
            using inb nz need0 p
            by (subst UTF8Decode_loop.simps) (simp add: byte_def [symmetric] c)
        qed
      next
        case need: False
        show ?thesis
        proof (cases "byte < utf8_lowerBoundary st \<or> byte > utf8_upperBoundary st")
          case outside: True
          obtain cr' out' where p: "PushCodePoint REPLACEMENT isPreviousCarriageReturn out = (cr', out')"
            by (cases "PushCodePoint REPLACEMENT isPreviousCarriageReturn out")
          have "list_all preprocessed out'"
            using push [OF REPLACEMENT_not_surrogate, of isPreviousCarriageReturn] p by simp
          from IH(6) [OF inb byte_def nz need outside refl p [symmetric] utf8_inv_reset this]
          show ?thesis
            using inb nz need outside p
            by (subst UTF8Decode_loop.simps) (simp add: byte_def [symmetric])
        next
          case inside: False
          define st1 where "st1 = st\<lparr>utf8_lowerBoundary := 0x80, utf8_upperBoundary := 0xBF,
                       utf8_codePoint := push_bit 6 (utf8_codePoint st) OR ucast (byte AND 0x3F),
                       utf8_bytesSeen := utf8_bytesSeen st + 1\<rparr>"
          from inside have lohi: "\<not> byte < utf8_lowerBoundary st" "\<not> byte > utf8_upperBoundary st"
            by simp_all
          note cont = utf8_continuation [OF inv need lohi st1_def]
          show ?thesis
          proof (cases "utf8_bytesSeen st1 \<noteq> utf8_bytesNeeded st1")
            case more: True
            from IH(7) [OF inb byte_def nz need inside st1_def more cont(1) [OF more] out]
            show ?thesis
              using inb nz need inside more
              by (subst UTF8Decode_loop.simps) (simp add: byte_def [symmetric] st1_def [symmetric] Let_def)
          next
            case last: False
            then have eq: "utf8_bytesSeen st1 = utf8_bytesNeeded st1" by simp
            obtain cr' out' where p: "PushCodePoint (utf8_codePoint st1) isPreviousCarriageReturn out = (cr', out')"
              by (cases "PushCodePoint (utf8_codePoint st1) isPreviousCarriageReturn out")
            have o: "list_all preprocessed out'"
              using push [OF cont(2) [OF eq], of isPreviousCarriageReturn] p by simp
            have i: "utf8_inv (st1\<lparr>utf8_codePoint := 0, utf8_bytesNeeded := 0, utf8_bytesSeen := 0\<rparr>)"
              by (rule utf8_inv_done) (simp_all add: st1_def)
            from IH(8) [OF inb byte_def nz need inside st1_def last refl p [symmetric] i o]
            show ?thesis
              using inb nz need inside last p
              by (subst UTF8Decode_loop.simps) (simp add: byte_def [symmetric] st1_def [symmetric] Let_def)
          qed
        qed
      qed
    qed
  qed
qed

lemma UTF8Decode_preprocessed:
  "list_all preprocessed (snd (UTF8Decode input inputPosition []))"
  unfolding UTF8Decode_def
  by (rule UTF8Decode_loop_preprocessed [OF utf8_inv_initial]) simp

text \<open>
  Where plain \<^verbatim>\<open>char\<close> is signed, no byte compares equal to 0xEF, 0xFE or 0xFF, and
  \<^verbatim>\<open>BOMSniff\<close> finds no byte order mark at all.
\<close>

lemma BOMSniff_signed_char: "BOMSniff True ioQueue position = Count"
proof -
  have lt: "sint b < 128" for b :: Byte
    using sint_lt [of b] by simp
  have "sint b \<noteq> 0xEF \<and> sint b \<noteq> 0xFE \<and> sint b \<noteq> 0xFF" for b :: Byte
    using lt [of b] by auto
  then show ?thesis
    by (simp add: BOMSniff_def char_to_int_def Let_def)
qed


section \<open>What the consumers return\<close>

text \<open>
  Facts about single consumers that the claims below rest on: which kinds of token each
  one can write, when \<^verbatim>\<open>ConsumeStringToken\<close>, \<^verbatim>\<open>ConsumeURL\<close> and
  \<^verbatim>\<open>ConsumeComments\<close> run into the end of the input, and how the loop of
  \<^verbatim>\<open>TokenizeCodePoints\<close> goes on after one call of \<^verbatim>\<open>ConsumeToken\<close>.
\<close>

lemmas Create_defs =
  CreateWhitespace_def CreateBadString_def CreateBadURL_def CreateLeftParenthesis_def
  CreateRightParenthesis_def CreateLeftSquareBracket_def CreateRightSquareBracket_def
  CreateLeftCurlyBracket_def CreateRightCurlyBracket_def CreateComma_def CreateColon_def
  CreateSemiColon_def CreateCDC_def CreateCDO_def CreateDelim_def CreateHash_def
  CreateString_def CreateNumber_def CreatePercentage_def CreateDimension_def
  CreateFunction_def CreateIdent_def CreateURL_def CreateAtKeyword_def

lemma ConsumeStringToken_loop_type:
  "ConsumeStringToken_loop inputStream position val e = Some (ok, position', Some t)
   \<Longrightarrow> TokenType_of t = String \<or> TokenType_of t = BadString"
proof (induction inputStream position val e rule: ConsumeStringToken_loop.induct)
  case (1 inputStream position val endingCodePoint)
  from "1.prems" show ?case
    unfolding ConsumeStringToken_loop.simps [of inputStream position val endingCodePoint]
    using "1.IH"
    by (fastforce simp add: Let_def Create_defs split: if_splits option.splits)
qed

lemma ConsumeEscapedCodePoint_ok:
  "ConsumeEscapedCodePoint inputStream position = Some (ok, position', c)
   \<Longrightarrow> position \<noteq> length inputStream \<Longrightarrow> ok"
  by (auto simp add: ConsumeEscapedCodePoint_def Let_def
           split: if_splits Option.bind_splits prod.splits)

lemma ConsumeRemnantsOfBadURL_ok:
  "ConsumeRemnantsOfBadURL inputStream position = Some (ok, position') \<Longrightarrow> ok"
proof (induction inputStream position rule: ConsumeRemnantsOfBadURL.induct)
  case (1 inputStream position)
  from "1.prems" show ?case
    unfolding ConsumeRemnantsOfBadURL.simps [of inputStream position]
    using "1.IH"
    by (fastforce split: if_splits option.splits dest: ConsumeEscapedCodePoint_ok)
qed

lemma ConsumeURL_bad_result:
  "ConsumeURL_bad inputStream position = Some (ok, position', t)
   \<Longrightarrow> ok \<and> t = Some CreateBadURL"
  by (auto simp add: ConsumeURL_bad_def split: option.splits if_splits
           dest: ConsumeRemnantsOfBadURL_ok)

lemma ConsumeURL_loop_result:
  "ConsumeURL_loop inputStream position val = Some (ok, position', Some t)
   \<Longrightarrow> ok \<and> (TokenType_of t = URL \<or> t = CreateBadURL)"
proof (induction inputStream position val rule: ConsumeURL_loop.induct)
  case (1 inputStream position val)
  from "1.prems" show ?case
    unfolding ConsumeURL_loop.simps [of inputStream position val]
    using "1.IH"
    by (fastforce simp add: Let_def CreateURL_def
          split: if_splits option.splits dest: ConsumeURL_bad_result)
qed

lemma ConsumeNumericToken_type:
  "ConsumeNumericToken inputStream position = Some (ok, position', Some t)
   \<Longrightarrow> TokenType_of t = Dimension \<or> TokenType_of t = Percentage \<or> TokenType_of t = Number"
  by (auto simp add: ConsumeNumericToken_def Create_defs
           split: if_splits Option.bind_splits prod.splits)

lemma ConsumeIdentLikeToken_result:
  "ConsumeIdentLikeToken inputStream position = Some (ok, position', Some t)
   \<Longrightarrow> ok \<and> (TokenType_of t = Function \<or> TokenType_of t = Ident \<or> TokenType_of t = URL
              \<or> t = CreateBadURL)"
  by (auto simp add: ConsumeIdentLikeToken_def CreateFunction_def CreateIdent_def
             ConsumeURL_def Let_def
           split: if_splits Option.bind_splits prod.splits
           dest: ConsumeURL_loop_result)

lemma ConsumeIdentSequence_loop_prefix:
  "ConsumeIdentSequence_loop inputStream position acc = Some (ok, position', Some res)
   \<Longrightarrow> \<exists>more. res = acc @ more"
proof (induction inputStream position acc rule: ConsumeIdentSequence_loop.induct)
  case (1 inputStream position resultLocal)
  from "1.prems" show ?case
    unfolding ConsumeIdentSequence_loop.simps [of inputStream position resultLocal]
    using "1.IH"
    by (fastforce simp add: Let_def split: if_splits option.splits)
qed

lemma ConsumeIdentSequence_loop_first:
  assumes "ConsumeIdentSequence_loop inputStream position [] = Some (ok, position', Some v)"
    and "position < length inputStream"
  shows "IsIdent (inputStream ! position) \<Longrightarrow> v \<noteq> [] \<and> hd v = inputStream ! position"
    and "AreTwoCodePointsValidEscape inputStream position \<Longrightarrow> v \<noteq> []"
  using assms
  unfolding ConsumeIdentSequence_loop.simps [of inputStream position "[]"]
  by (auto simp add: Let_def split: if_splits option.splits
           dest!: ConsumeIdentSequence_loop_prefix)

lemma not_IsIdent_REVERSE_SOLIDUS: "\<not> IsIdent REVERSE_SOLIDUS"
  by (simp add: IsIdent_def IsIdentStart_def IsLetter_def IsUppercaseLetter_def
        IsLowercaseLetter_def IsNonASCII_def IsDigit_def)

lemma ConsumeIdentSequence_loop_escape:
  assumes "ConsumeIdentSequence_loop inputStream position [] = Some (ok, position', Some v)"
    and "AreTwoCodePointsValidEscape inputStream position"
  shows "v \<noteq> [] \<and> (\<exists>q. ConsumeEscapedCodePoint inputStream (position + 1) = Some (True, q, hd v))"
proof -
  from assms(2) have inb: "position < length inputStream"
    and rs: "inputStream ! position = REVERSE_SOLIDUS"
    by (auto simp add: AreTwoCodePointsValidEscape_def split: if_splits)
  from rs have ni: "\<not> IsIdent (inputStream ! position)"
    by (simp add: not_IsIdent_REVERSE_SOLIDUS)
  from assms(1) inb ni assms(2) show ?thesis
    unfolding ConsumeIdentSequence_loop.simps [of inputStream position "[]"]
    by (auto simp add: Let_def split: if_splits option.splits
             dest!: ConsumeIdentSequence_loop_prefix)
qed

lemma starts_ident_first:
  assumes "DoThreeCodePointsStartIndentSequence inputStream position"
  shows "position < length inputStream
         \<and> (IsIdentStart (inputStream ! position) \<or> inputStream ! position = HYPHEN_MINUS
            \<or> AreTwoCodePointsValidEscape inputStream position)"
  using assms
  by (auto simp add: DoThreeCodePointsStartIndentSequence_def Let_def split: if_splits)

lemma ConsumeToken_Hash:
  assumes "ConsumeToken inputStream position
             = Some (ok, position', Some (CreateHash (HashTokenValue v isID)))"
  shows "\<exists>p ok2. position \<le> p \<and> p + 1 < length inputStream \<and> inputStream ! p = NUMBER_SIGN
          \<and> isID = DoThreeCodePointsStartIndentSequence inputStream (p + 1)
          \<and> ConsumeIdentSequence_loop inputStream (p + 1) [] = Some (ok2, position', Some v)"
proof -
  obtain ok1 p where c: "ConsumeComments inputStream position = (ok1, p)"
    by (cases "ConsumeComments inputStream position")
  then have le: "position \<le> p" by (rule ConsumeComments_position)
  from assms c have inb: "p < length inputStream"
    by (auto simp add: ConsumeToken_def at_def split: if_splits Option.bind_splits)
  define nextCodePoint where "nextCodePoint = inputStream ! p"
  have ty: "TokenType_of (CreateHash (HashTokenValue v isID)) = Hash"
    by (simp add: CreateHash_def)
  have "nextCodePoint = NUMBER_SIGN \<and> p + 1 < length inputStream
      \<and> isID = DoThreeCodePointsStartIndentSequence inputStream (p + 1)
      \<and> (\<exists>ok2. ConsumeIdentSequence_loop inputStream (p + 1) [] = Some (ok2, position', Some v))"
    using assms c inb ty
    by (auto simp add: ConsumeToken_def at_def Let_def ConsumeWhitespace_def
               ConsumeStringToken_def ConsumeIdentSequence_def
               nextCodePoint_def [symmetric] Create_defs
             split: if_splits Option.bind_splits prod.splits
             dest!: ConsumeStringToken_loop_type ConsumeNumericToken_type
                   ConsumeIdentLikeToken_result)
  with le show ?thesis unfolding nextCodePoint_def by blast
qed

lemma ConsumeStringToken_loop_eof:
  assumes "position \<le> length inputStream"
    and "\<forall>i. position \<le> i \<and> i < length inputStream \<longrightarrow>
           inputStream ! i \<noteq> e \<and> inputStream ! i \<noteq> LINE_FEED
           \<and> inputStream ! i \<noteq> REVERSE_SOLIDUS"
  shows "ConsumeStringToken_loop inputStream position val e
           = Some (False, length inputStream,
                   Some (CreateString (val @ drop position inputStream)))"
  using assms
proof (induction inputStream position val e rule: ConsumeStringToken_loop.induct)
  case (1 inputStream position val endingCodePoint)
  show ?case
  proof (cases "position < length inputStream")
    case False
    with "1.prems"(1) show ?thesis
      unfolding ConsumeStringToken_loop.simps [of inputStream position val endingCodePoint]
      by simp
  next
    case True
    with "1.prems"(2) have here: "inputStream ! position \<noteq> endingCodePoint"
        "inputStream ! position \<noteq> LINE_FEED" "inputStream ! position \<noteq> REVERSE_SOLIDUS"
      by auto
    have later: "\<forall>i. position + 1 \<le> i \<and> i < length inputStream \<longrightarrow>
           inputStream ! i \<noteq> endingCodePoint \<and> inputStream ! i \<noteq> LINE_FEED
           \<and> inputStream ! i \<noteq> REVERSE_SOLIDUS"
      using "1.prems"(2) by auto
    have "ConsumeStringToken_loop inputStream (position + 1)
            (val @ [inputStream ! position]) endingCodePoint
          = Some (False, length inputStream,
               Some (CreateString ((val @ [inputStream ! position])
                                   @ drop (position + 1) inputStream)))"
      using True here later
      by (intro "1.IH"(4) [OF True refl refl]) (simp_all add: IsNewline_def)
    moreover have "drop position inputStream
                   = inputStream ! position # drop (position + 1) inputStream"
      using True by (simp add: Cons_nth_drop_Suc)
    ultimately show ?thesis
      unfolding ConsumeStringToken_loop.simps [of inputStream position val endingCodePoint]
      using True here by (simp add: Let_def IsNewline_def)
  qed
qed

lemma ConsumeStringToken_loop_newline:
  assumes "position \<le> n" and "n < length inputStream" and "inputStream ! n = LINE_FEED"
    and "e \<noteq> LINE_FEED"
    and "\<forall>i. position \<le> i \<and> i < n \<longrightarrow>
           inputStream ! i \<noteq> e \<and> inputStream ! i \<noteq> LINE_FEED
           \<and> inputStream ! i \<noteq> REVERSE_SOLIDUS"
  shows "ConsumeStringToken_loop inputStream position val e
           = Some (False, n, Some CreateBadString)"
  using assms
proof (induction inputStream position val e rule: ConsumeStringToken_loop.induct)
  case (1 inputStream position val endingCodePoint)
  from "1.prems"(1,2) have inb: "position < length inputStream" by simp
  show ?case
  proof (cases "position = n")
    case True
    with "1.prems" inb show ?thesis
      unfolding ConsumeStringToken_loop.simps [of inputStream position val endingCodePoint]
      by (simp add: Let_def IsNewline_def)
  next
    case False
    with "1.prems"(1) have lt: "position < n" by simp
    with "1.prems"(5) have here: "inputStream ! position \<noteq> endingCodePoint"
        "inputStream ! position \<noteq> LINE_FEED" "inputStream ! position \<noteq> REVERSE_SOLIDUS"
      by auto
    have later: "\<forall>i. position + 1 \<le> i \<and> i < n \<longrightarrow>
           inputStream ! i \<noteq> endingCodePoint \<and> inputStream ! i \<noteq> LINE_FEED
           \<and> inputStream ! i \<noteq> REVERSE_SOLIDUS"
      using "1.prems"(5) by auto
    have "ConsumeStringToken_loop inputStream (position + 1)
            (val @ [inputStream ! position]) endingCodePoint
          = Some (False, n, Some CreateBadString)"
      using inb here later lt "1.prems"(2,3,4)
      by (intro "1.IH"(4) [OF inb refl refl]) (simp_all add: IsNewline_def)
    then show ?thesis
      unfolding ConsumeStringToken_loop.simps [of inputStream position val endingCodePoint]
      using inb here by (simp add: Let_def IsNewline_def)
  qed
qed

lemma ConsumeURL_loop_eof:
  assumes "position \<le> length inputStream"
    and "\<forall>i. position \<le> i \<and> i < length inputStream \<longrightarrow>
           inputStream ! i \<noteq> RIGHT_PARENTHESIS \<and> \<not> IsWhitespace (inputStream ! i)
           \<and> inputStream ! i \<noteq> QUOTATION_MARK \<and> inputStream ! i \<noteq> APOSTROPHE
           \<and> inputStream ! i \<noteq> LEFT_PARENTHESIS \<and> \<not> IsNonPrintable (inputStream ! i)
           \<and> inputStream ! i \<noteq> REVERSE_SOLIDUS"
  shows "ConsumeURL_loop inputStream position val = Some (False, length inputStream, None)"
  using assms
proof (induction inputStream position val rule: ConsumeURL_loop.induct)
  case (1 inputStream position val)
  show ?case
  proof (cases "position < length inputStream")
    case False
    with "1.prems"(1) show ?thesis
      unfolding ConsumeURL_loop.simps [of inputStream position val] by simp
  next
    case True
    with "1.prems"(2) have here:
        "inputStream ! position \<noteq> RIGHT_PARENTHESIS" "\<not> IsWhitespace (inputStream ! position)"
        "inputStream ! position \<noteq> QUOTATION_MARK" "inputStream ! position \<noteq> APOSTROPHE"
        "inputStream ! position \<noteq> LEFT_PARENTHESIS" "\<not> IsNonPrintable (inputStream ! position)"
        "inputStream ! position \<noteq> REVERSE_SOLIDUS"
      by auto
    have later: "\<forall>i. position + 1 \<le> i \<and> i < length inputStream \<longrightarrow>
           inputStream ! i \<noteq> RIGHT_PARENTHESIS \<and> \<not> IsWhitespace (inputStream ! i)
           \<and> inputStream ! i \<noteq> QUOTATION_MARK \<and> inputStream ! i \<noteq> APOSTROPHE
           \<and> inputStream ! i \<noteq> LEFT_PARENTHESIS \<and> \<not> IsNonPrintable (inputStream ! i)
           \<and> inputStream ! i \<noteq> REVERSE_SOLIDUS"
      using "1.prems"(2) by auto
    have "ConsumeURL_loop inputStream (position + 1) (val @ [inputStream ! position])
          = Some (False, length inputStream, None)"
      using True here later
      by (intro "1.IH"(2) [OF True refl refl]) simp_all
    then show ?thesis
      unfolding ConsumeURL_loop.simps [of inputStream position val]
      using True here by (simp add: Let_def)
  qed
qed

lemma ConsumeComments_not_SOLIDUS:
  "position < length inputStream \<Longrightarrow> inputStream ! position \<noteq> SOLIDUS
   \<Longrightarrow> ConsumeComments inputStream position = (True, position)"
  by (simp add: ConsumeComments_def)

lemma ConsumeToken_string:
  assumes "position < length inputStream"
    and "inputStream ! position = QUOTATION_MARK \<or> inputStream ! position = APOSTROPHE"
  shows "ConsumeToken inputStream position
           = ConsumeStringToken_loop inputStream (position + 1) [] (inputStream ! position)"
proof -
  from assms have c: "ConsumeComments inputStream position = (True, position)"
    by (intro ConsumeComments_not_SOLIDUS) auto
  from assms(2) show ?thesis
  proof
    assume "inputStream ! position = QUOTATION_MARK"
    with assms(1) c show ?thesis
      by (simp add: ConsumeToken_def at_def ConsumeStringToken_def IsWhitespace_def
            IsNewline_def)
  next
    assume "inputStream ! position = APOSTROPHE"
    with assms(1) c show ?thesis
      by (simp add: ConsumeToken_def at_def ConsumeStringToken_def IsWhitespace_def
            IsNewline_def)
  qed
qed

lemma ConsumeWhitespace_loop_stay:
  "(position < length inputStream \<longrightarrow> \<not> IsWhitespace (inputStream ! position))
   \<Longrightarrow> ConsumeWhitespace_loop inputStream position = position"
  by (subst ConsumeWhitespace_loop.simps) simp

lemma ConsumeIdentLikeToken_loop_stay:
  "(position < length inputStream \<longrightarrow> \<not> IsWhitespace (inputStream ! position))
   \<Longrightarrow> ConsumeIdentLikeToken_loop inputStream position = position"
  by (subst ConsumeIdentLikeToken_loop.simps) auto

lemma ConsumeIdentSequence_loop_step:
  "position < length inputStream \<Longrightarrow> IsIdent (inputStream ! position)
   \<Longrightarrow> ConsumeIdentSequence_loop inputStream position acc
       = ConsumeIdentSequence_loop inputStream (Suc position) (acc @ [inputStream ! position])"
  by (subst ConsumeIdentSequence_loop.simps) (simp add: Let_def)

lemma ConsumeIdentSequence_loop_stop:
  "position < length inputStream \<Longrightarrow> \<not> IsIdent (inputStream ! position)
   \<Longrightarrow> inputStream ! position \<noteq> REVERSE_SOLIDUS
   \<Longrightarrow> ConsumeIdentSequence_loop inputStream position acc = Some (True, position, Some acc)"
  by (subst ConsumeIdentSequence_loop.simps)
     (simp add: Let_def AreTwoCodePointsValidEscape_def)

lemma ConsumeIdentSequence_url:
  assumes "position + 3 < length inputStream"
    and "inputStream ! position = LATIN_SMALL_LETTER_U"
    and "inputStream ! (position + 1) = LATIN_SMALL_LETTER_R"
    and "inputStream ! (position + 2) = LATIN_SMALL_LETTER_L"
    and "inputStream ! (position + 3) = LEFT_PARENTHESIS"
  shows "ConsumeIdentSequence inputStream position
           = Some (True, position + 3,
                   Some [LATIN_SMALL_LETTER_U, LATIN_SMALL_LETTER_R, LATIN_SMALL_LETTER_L])"
proof -
  have id: "IsIdent LATIN_SMALL_LETTER_U" "IsIdent LATIN_SMALL_LETTER_R"
      "IsIdent LATIN_SMALL_LETTER_L" "\<not> IsIdent LEFT_PARENTHESIS"
    by (simp_all add: IsIdent_def IsIdentStart_def IsLetter_def IsUppercaseLetter_def
          IsLowercaseLetter_def IsNonASCII_def IsDigit_def)
  have e: "position + 1 = Suc position" "position + 2 = Suc (Suc position)"
      "position + 3 = Suc (Suc (Suc position))"
    by simp_all
  note a = assms [unfolded e]
  have "ConsumeIdentSequence_loop inputStream position []
        = ConsumeIdentSequence_loop inputStream (Suc position) [LATIN_SMALL_LETTER_U]"
    using a id by (subst ConsumeIdentSequence_loop_step) simp_all
  also have "\<dots> = ConsumeIdentSequence_loop inputStream (Suc (Suc position))
                    [LATIN_SMALL_LETTER_U, LATIN_SMALL_LETTER_R]"
    using a id by (subst ConsumeIdentSequence_loop_step) simp_all
  also have "\<dots> = ConsumeIdentSequence_loop inputStream (Suc (Suc (Suc position)))
                    [LATIN_SMALL_LETTER_U, LATIN_SMALL_LETTER_R, LATIN_SMALL_LETTER_L]"
    using a id by (subst ConsumeIdentSequence_loop_step) simp_all
  also have "\<dots> = Some (True, Suc (Suc (Suc position)),
                   Some [LATIN_SMALL_LETTER_U, LATIN_SMALL_LETTER_R, LATIN_SMALL_LETTER_L])"
    using a id by (subst ConsumeIdentSequence_loop_stop) simp_all
  finally show ?thesis
    unfolding ConsumeIdentSequence_def e .
qed

lemma ConsumeIdentLikeToken_url_plain:
  assumes "ConsumeIdentSequence inputStream position
             = Some (True, q, Some [LATIN_SMALL_LETTER_U, LATIN_SMALL_LETTER_R,
                                    LATIN_SMALL_LETTER_L])"
    and "q < length inputStream" and "inputStream ! q = LEFT_PARENTHESIS"
    and "Suc q < length inputStream \<longrightarrow>
           \<not> IsWhitespace (inputStream ! Suc q) \<and> inputStream ! Suc q \<noteq> QUOTATION_MARK"
  shows "ConsumeIdentLikeToken inputStream position = ConsumeURL inputStream (Suc q)"
proof -
  have stay: "ConsumeIdentLikeToken_loop inputStream (Suc q) = Suc q"
    using assms(4) by (intro ConsumeIdentLikeToken_loop_stay) simp
  have look: "\<not> (Suc q + 1 < length inputStream
            \<and> (let next = inputStream ! Suc q; afterNext = inputStream ! (Suc q + 1)
                in (next = QUOTATION_MARK \<and> afterNext = APOSTROPHE)
                   \<or> (IsWhitespace next
                       \<and> (afterNext = QUOTATION_MARK \<or> afterNext = APOSTROPHE))))"
    using assms(4) by (auto simp add: Let_def)
  show ?thesis
    unfolding ConsumeIdentLikeToken_def assms(1)
    using assms(2,3) look by (auto simp add: stay Let_def)
qed

lemma ConsumeToken_url_eof:
  assumes "position + 3 < length inputStream"
    and "inputStream ! position = LATIN_SMALL_LETTER_U"
    and "inputStream ! (position + 1) = LATIN_SMALL_LETTER_R"
    and "inputStream ! (position + 2) = LATIN_SMALL_LETTER_L"
    and "inputStream ! (position + 3) = LEFT_PARENTHESIS"
    and plain: "\<forall>i. position + 3 < i \<and> i < length inputStream \<longrightarrow>
           inputStream ! i \<noteq> RIGHT_PARENTHESIS \<and> \<not> IsWhitespace (inputStream ! i)
           \<and> inputStream ! i \<noteq> QUOTATION_MARK \<and> inputStream ! i \<noteq> APOSTROPHE
           \<and> inputStream ! i \<noteq> LEFT_PARENTHESIS \<and> \<not> IsNonPrintable (inputStream ! i)
           \<and> inputStream ! i \<noteq> REVERSE_SOLIDUS"
  shows "ConsumeToken inputStream position = Some (False, length inputStream, None)"
proof -
  from assms(1,2) have c: "ConsumeComments inputStream position = (True, position)"
    by (intro ConsumeComments_not_SOLIDUS) auto
  have first: "\<not> IsWhitespace LATIN_SMALL_LETTER_U" "\<not> IsDigit LATIN_SMALL_LETTER_U"
      "IsIdentStart LATIN_SMALL_LETTER_U"
    by (simp_all add: IsWhitespace_def IsNewline_def IsDigit_def IsIdentStart_def IsLetter_def
          IsLowercaseLetter_def)
  have tok: "ConsumeToken inputStream position = ConsumeIdentLikeToken inputStream position"
    using assms(1,2) c first
    by (simp add: ConsumeToken_def at_def)
  define q where "q = position + 3"
  have ws: "Suc q < length inputStream \<longrightarrow>
           \<not> IsWhitespace (inputStream ! Suc q) \<and> inputStream ! Suc q \<noteq> QUOTATION_MARK"
    using plain unfolding q_def by auto
  have stay: "ConsumeWhitespace_loop inputStream (Suc q) = Suc q"
    using ws by (intro ConsumeWhitespace_loop_stay) simp
  have url: "ConsumeURL_loop inputStream (Suc q) [] = Some (False, length inputStream, None)"
    using assms(1) plain unfolding q_def by (intro ConsumeURL_loop_eof) auto
  have "ConsumeIdentLikeToken inputStream position = ConsumeURL inputStream (Suc q)"
    using ConsumeIdentSequence_url [OF assms(1-5)] assms(1,5) ws
    unfolding q_def [symmetric] by (rule ConsumeIdentLikeToken_url_plain)
  with tok url stay show ?thesis
    by (simp add: ConsumeURL_def)
qed

lemma ConsumeToken_BadURL_ok:
  assumes "ConsumeToken inputStream position = Some (ok, position', Some CreateBadURL)"
  shows "ok"
proof -
  obtain ok1 p where c: "ConsumeComments inputStream position = (ok1, p)"
    by (cases "ConsumeComments inputStream position")
  from assms c have inb: "p < length inputStream"
    by (auto simp add: ConsumeToken_def at_def split: if_splits Option.bind_splits)
  define nextCodePoint where "nextCodePoint = inputStream ! p"
  have ty: "TokenType_of CreateBadURL = BadURL"
    by (simp add: CreateBadURL_def)
  show ?thesis
    using assms c inb ty
    by (auto simp add: ConsumeToken_def at_def Let_def ConsumeWhitespace_def
               ConsumeStringToken_def ConsumeIdentSequence_def
               nextCodePoint_def [symmetric] Create_defs
             split: if_splits Option.bind_splits prod.splits
             dest!: ConsumeStringToken_loop_type ConsumeNumericToken_type
                   ConsumeIdentLikeToken_result)
qed

lemma TokenizeCodePoints_loop_failure:
  "position < length inputStream \<Longrightarrow> ConsumeToken inputStream position = Some (False, p, t)
   \<Longrightarrow> TokenizeCodePoints_loop inputStream position out = Some (False, out)"
  by (subst TokenizeCodePoints_loop.simps) simp

lemma TokenizeCodePoints_loop_token:
  "position < length inputStream \<Longrightarrow> ConsumeToken inputStream position = Some (True, p, Some t)
   \<Longrightarrow> TokenizeCodePoints_loop inputStream position out
       = TokenizeCodePoints_loop inputStream p (out @ [t])"
  by (subst TokenizeCodePoints_loop.simps) simp

lemma ConsumeComments_loop_unterminated:
  assumes "position \<le> length inputStream"
    and "\<forall>i. position \<le> i \<and> i + 1 < length inputStream \<longrightarrow>
           \<not> (inputStream ! i = ASTERISK \<and> inputStream ! (i + 1) = SOLIDUS)"
    and "isPreviousAsterisk \<longrightarrow> position < length inputStream
           \<longrightarrow> inputStream ! position \<noteq> SOLIDUS"
  shows "ConsumeComments_loop inputStream position isPreviousAsterisk
           = (False, length inputStream)"
  using assms
proof (induction inputStream position isPreviousAsterisk rule: ConsumeComments_loop.induct)
  case (1 inputStream position isPreviousAsterisk)
  show ?case
  proof (cases "position < length inputStream")
    case False
    with "1.prems"(1) show ?thesis
      unfolding ConsumeComments_loop.simps [of inputStream position isPreviousAsterisk]
      by simp
  next
    case True
    have later: "\<forall>i. position + 1 \<le> i \<and> i + 1 < length inputStream \<longrightarrow>
           \<not> (inputStream ! i = ASTERISK \<and> inputStream ! (i + 1) = SOLIDUS)"
      using "1.prems"(2) by auto
    show ?thesis
    proof (cases "inputStream ! position = ASTERISK")
      case star: True
      have "position + 1 < length inputStream \<longrightarrow> inputStream ! (position + 1) \<noteq> SOLIDUS"
        using "1.prems"(2) star by auto
      with True later star
      have "ConsumeComments_loop inputStream (position + 1) True = (False, length inputStream)"
        by (intro "1.IH"(1) [OF True refl]) simp_all
      with True star show ?thesis
        unfolding ConsumeComments_loop.simps [of inputStream position isPreviousAsterisk]
        by (simp add: Let_def)
    next
      case other: False
      from "1.prems"(3) True
      have no: "\<not> (inputStream ! position = SOLIDUS \<and> isPreviousAsterisk)" by auto
      with True later other
      have "ConsumeComments_loop inputStream (position + 1) False = (False, length inputStream)"
        by (intro "1.IH"(2) [OF True refl]) simp_all
      with True other no show ?thesis
        unfolding ConsumeComments_loop.simps [of inputStream position isPreviousAsterisk]
        by (simp add: Let_def)
    qed
  qed
qed

lemma unterminated_comment_fails:
  assumes "p + 1 < length inputStream"
    and "inputStream ! p = SOLIDUS" and "inputStream ! (p + 1) = ASTERISK"
    and "\<forall>i. p < i \<and> i + 1 < length inputStream \<longrightarrow>
           \<not> (inputStream ! i = ASTERISK \<and> inputStream ! (i + 1) = SOLIDUS)"
  shows "ConsumeToken inputStream p = Some (False, length inputStream, None)"
    and "TokenizeCodePoints_loop inputStream p out = Some (False, out)"
proof -
  have "\<forall>i. p \<le> i \<and> i + 1 < length inputStream \<longrightarrow>
           \<not> (inputStream ! i = ASTERISK \<and> inputStream ! (i + 1) = SOLIDUS)"
    using assms(2,4) by (auto simp add: le_less)
  with assms(1) have "ConsumeComments_loop inputStream p False = (False, length inputStream)"
    by (intro ConsumeComments_loop_unterminated) simp_all
  with assms(1-3) have "ConsumeComments inputStream p = (False, length inputStream)"
    by (simp add: ConsumeComments_def)
  then show tok: "ConsumeToken inputStream p = Some (False, length inputStream, None)"
    by (simp add: ConsumeToken_def)
  from assms(1) have "p < length inputStream" by simp
  from this tok show "TokenizeCodePoints_loop inputStream p out = Some (False, out)"
    by (rule TokenizeCodePoints_loop_failure)
qed

text \<open>
  Parse errors that end the run. For a cursor \<open>p\<close> on a quotation mark or an apostrophe:
  \<^item> when no later code point is that delimiter, a line feed or a reverse solidus,
    \<^verbatim>\<open>ConsumeToken\<close> writes the String token of the rest of the input and returns
    false;
  \<^item> when a line feed comes at \<open>n\<close> and no code point between \<open>p\<close> and \<open>n\<close> is that
    delimiter, a line feed or a reverse solidus, \<^verbatim>\<open>ConsumeToken\<close> writes a BadString
    token, leaves the cursor on the line feed and returns false.
  For a cursor on \<^verbatim>\<open>url(\<close> followed up to the end of the input by no right
  parenthesis, whitespace, quotation mark, apostrophe, left parenthesis, non-printable
  code point or reverse solidus, \<^verbatim>\<open>ConsumeToken\<close> returns false and writes no token.
  In all three cases the loop of \<^verbatim>\<open>TokenizeCodePoints\<close> stops there and returns
  failure, with the tokens pushed before. Whenever \<^verbatim>\<open>ConsumeToken\<close> writes a BadURL
  token it returns true, and the loop goes on behind it. Strings and URLs that hold a
  reverse solidus are not covered.
\<close>

lemma string_and_url_errors_fail:
  "((inputStream ! p = QUOTATION_MARK \<or> inputStream ! p = APOSTROPHE) \<and> p < length inputStream
      \<and> (\<forall>i. p < i \<and> i < length inputStream \<longrightarrow>
             inputStream ! i \<noteq> inputStream ! p \<and> inputStream ! i \<noteq> LINE_FEED
             \<and> inputStream ! i \<noteq> REVERSE_SOLIDUS)
     \<longrightarrow> ConsumeToken inputStream p
           = Some (False, length inputStream, Some (CreateString (drop (Suc p) inputStream)))
         \<and> TokenizeCodePoints_loop inputStream p out = Some (False, out))
   \<and> ((inputStream ! p = QUOTATION_MARK \<or> inputStream ! p = APOSTROPHE)
      \<and> p < n \<and> n < length inputStream \<and> inputStream ! n = LINE_FEED
      \<and> (\<forall>i. p < i \<and> i < n \<longrightarrow>
             inputStream ! i \<noteq> inputStream ! p \<and> inputStream ! i \<noteq> LINE_FEED
             \<and> inputStream ! i \<noteq> REVERSE_SOLIDUS)
     \<longrightarrow> ConsumeToken inputStream p = Some (False, n, Some CreateBadString)
         \<and> TokenizeCodePoints_loop inputStream p out = Some (False, out))
   \<and> (p + 3 < length inputStream
      \<and> inputStream ! p = LATIN_SMALL_LETTER_U \<and> inputStream ! (p + 1) = LATIN_SMALL_LETTER_R
      \<and> inputStream ! (p + 2) = LATIN_SMALL_LETTER_L \<and> inputStream ! (p + 3) = LEFT_PARENTHESIS
      \<and> (\<forall>i. p + 3 < i \<and> i < length inputStream \<longrightarrow>
             inputStream ! i \<noteq> RIGHT_PARENTHESIS \<and> \<not> IsWhitespace (inputStream ! i)
             \<and> inputStream ! i \<noteq> QUOTATION_MARK \<and> inputStream ! i \<noteq> APOSTROPHE
             \<and> inputStream ! i \<noteq> LEFT_PARENTHESIS \<and> \<not> IsNonPrintable (inputStream ! i)
             \<and> inputStream ! i \<noteq> REVERSE_SOLIDUS)
     \<longrightarrow> ConsumeToken inputStream p = Some (False, length inputStream, None)
         \<and> TokenizeCodePoints_loop inputStream p out = Some (False, out))
   \<and> (p < length inputStream
      \<and> ConsumeToken inputStream p = Some (ok, p', Some CreateBadURL)
     \<longrightarrow> ok \<and> TokenizeCodePoints_loop inputStream p out
                = TokenizeCodePoints_loop inputStream p' (out @ [CreateBadURL]))"
proof (intro conjI impI; (elim conjE)?)
  assume q: "inputStream ! p = QUOTATION_MARK \<or> inputStream ! p = APOSTROPHE"
    and inb: "p < length inputStream"
    and body: "\<forall>i. p < i \<and> i < length inputStream \<longrightarrow>
             inputStream ! i \<noteq> inputStream ! p \<and> inputStream ! i \<noteq> LINE_FEED
             \<and> inputStream ! i \<noteq> REVERSE_SOLIDUS"
  have "ConsumeStringToken_loop inputStream (p + 1) [] (inputStream ! p)
        = Some (False, length inputStream,
                Some (CreateString ([] @ drop (p + 1) inputStream)))"
    using inb body by (intro ConsumeStringToken_loop_eof) auto
  with ConsumeToken_string [OF inb q]
  show tok: "ConsumeToken inputStream p
           = Some (False, length inputStream, Some (CreateString (drop (Suc p) inputStream)))"
    by simp
  from inb tok show "TokenizeCodePoints_loop inputStream p out = Some (False, out)"
    by (rule TokenizeCodePoints_loop_failure)
next
  assume q: "inputStream ! p = QUOTATION_MARK \<or> inputStream ! p = APOSTROPHE"
    and pn: "p < n" and inb: "n < length inputStream" and nl: "inputStream ! n = LINE_FEED"
    and body: "\<forall>i. p < i \<and> i < n \<longrightarrow>
             inputStream ! i \<noteq> inputStream ! p \<and> inputStream ! i \<noteq> LINE_FEED
             \<and> inputStream ! i \<noteq> REVERSE_SOLIDUS"
  from pn inb have inp: "p < length inputStream" by simp
  from q have e: "inputStream ! p \<noteq> LINE_FEED" by auto
  have "ConsumeStringToken_loop inputStream (p + 1) [] (inputStream ! p)
        = Some (False, n, Some CreateBadString)"
    using pn inb nl e body by (intro ConsumeStringToken_loop_newline) auto
  with ConsumeToken_string [OF inp q]
  show tok: "ConsumeToken inputStream p = Some (False, n, Some CreateBadString)"
    by simp
  from inp tok show "TokenizeCodePoints_loop inputStream p out = Some (False, out)"
    by (rule TokenizeCodePoints_loop_failure)
next
  assume a: "p + 3 < length inputStream" "inputStream ! p = LATIN_SMALL_LETTER_U"
    "inputStream ! (p + 1) = LATIN_SMALL_LETTER_R" "inputStream ! (p + 2) = LATIN_SMALL_LETTER_L"
    "inputStream ! (p + 3) = LEFT_PARENTHESIS"
    "\<forall>i. p + 3 < i \<and> i < length inputStream \<longrightarrow>
             inputStream ! i \<noteq> RIGHT_PARENTHESIS \<and> \<not> IsWhitespace (inputStream ! i)
             \<and> inputStream ! i \<noteq> QUOTATION_MARK \<and> inputStream ! i \<noteq> APOSTROPHE
             \<and> inputStream ! i \<noteq> LEFT_PARENTHESIS \<and> \<not> IsNonPrintable (inputStream ! i)
             \<and> inputStream ! i \<noteq> REVERSE_SOLIDUS"
  from a show tok: "ConsumeToken inputStream p = Some (False, length inputStream, None)"
    by (rule ConsumeToken_url_eof)
  from a(1) have "p < length inputStream" by simp
  from this tok show "TokenizeCodePoints_loop inputStream p out = Some (False, out)"
    by (rule TokenizeCodePoints_loop_failure)
next
  assume inb: "p < length inputStream"
    and tok: "ConsumeToken inputStream p = Some (ok, p', Some CreateBadURL)"
  from tok show ok: "ok" by (rule ConsumeToken_BadURL_ok)
  from inb tok ok show "TokenizeCodePoints_loop inputStream p out
                = TokenizeCodePoints_loop inputStream p' (out @ [CreateBadURL])"
    by (simp add: TokenizeCodePoints_loop_token)
qed

lemma string_and_url_errors_fail_example:
  "ConsumeToken [APOSTROPHE, 0x61, 0x62] 0 = Some (False, 3, Some (CreateString [0x61, 0x62]))
   \<and> TokenizeCodePoints [APOSTROPHE, 0x61, 0x62] [] = Some (False, [])
   \<and> ConsumeToken [QUOTATION_MARK, 0x61, LINE_FEED, 0x62, QUOTATION_MARK] 0
       = Some (False, 2, Some CreateBadString)
   \<and> TokenizeCodePoints [QUOTATION_MARK, 0x61, LINE_FEED, 0x62, QUOTATION_MARK] []
       = Some (False, [])
   \<and> ConsumeToken [LATIN_SMALL_LETTER_U, LATIN_SMALL_LETTER_R, LATIN_SMALL_LETTER_L,
                    LEFT_PARENTHESIS, 0x61] 0 = Some (False, 5, None)
   \<and> TokenizeCodePoints [LATIN_SMALL_LETTER_U, LATIN_SMALL_LETTER_R, LATIN_SMALL_LETTER_L,
                    LEFT_PARENTHESIS, 0x61] [] = Some (False, [])
   \<and> ConsumeToken [LATIN_SMALL_LETTER_U, LATIN_SMALL_LETTER_R, LATIN_SMALL_LETTER_L,
                    LEFT_PARENTHESIS, 0x61, QUOTATION_MARK, 0x62, RIGHT_PARENTHESIS] 0
       = Some (True, 7, Some CreateBadURL)
   \<and> TokenizeCodePoints [LATIN_SMALL_LETTER_U, LATIN_SMALL_LETTER_R, LATIN_SMALL_LETTER_L,
                    LEFT_PARENTHESIS, 0x61, QUOTATION_MARK, 0x62, RIGHT_PARENTHESIS] []
       = Some (True, [CreateBadURL, CreateRightParenthesis])"
proof -
  let ?s = "[APOSTROPHE, 0x61, 0x62] :: CodePoint list"
  let ?n = "[QUOTATION_MARK, 0x61, LINE_FEED, 0x62, QUOTATION_MARK] :: CodePoint list"
  let ?u = "[LATIN_SMALL_LETTER_U, LATIN_SMALL_LETTER_R, LATIN_SMALL_LETTER_L,
             LEFT_PARENTHESIS, 0x61] :: CodePoint list"
  let ?b = "[LATIN_SMALL_LETTER_U, LATIN_SMALL_LETTER_R, LATIN_SMALL_LETTER_L,
             LEFT_PARENTHESIS, 0x61, QUOTATION_MARK, 0x62, RIGHT_PARENTHESIS] :: CodePoint list"
  have two: "\<And>i::nat. i < 2 \<longleftrightarrow> i = 0 \<or> i = 1" by auto
  have hs: "\<forall>i. 0 < i \<and> i < length ?s \<longrightarrow>
              ?s ! i \<noteq> ?s ! 0 \<and> ?s ! i \<noteq> LINE_FEED \<and> ?s ! i \<noteq> REVERSE_SOLIDUS"
    by (auto simp add: less_Suc_eq nth_Cons')
  have hn: "\<forall>i. 0 < i \<and> i < 2 \<longrightarrow>
              ?n ! i \<noteq> ?n ! 0 \<and> ?n ! i \<noteq> LINE_FEED \<and> ?n ! i \<noteq> REVERSE_SOLIDUS"
    by (auto simp add: two)
  have hu: "\<forall>i. 0 + 3 < i \<and> i < length ?u \<longrightarrow>
             ?u ! i \<noteq> RIGHT_PARENTHESIS \<and> \<not> IsWhitespace (?u ! i)
             \<and> ?u ! i \<noteq> QUOTATION_MARK \<and> ?u ! i \<noteq> APOSTROPHE
             \<and> ?u ! i \<noteq> LEFT_PARENTHESIS \<and> \<not> IsNonPrintable (?u ! i)
             \<and> ?u ! i \<noteq> REVERSE_SOLIDUS"
    by (auto simp add: less_Suc_eq nth_Cons' IsWhitespace_def IsNewline_def IsNonPrintable_def)
  have hb: "ConsumeToken ?b 0 = Some (True, 7, Some CreateBadURL)"
    by code_simp
  have rest: "TokenizeCodePoints_loop ?b 7 ([] @ [CreateBadURL])
              = Some (True, [CreateBadURL, CreateRightParenthesis])"
    by code_simp
  note t = string_and_url_errors_fail
  from t [of ?s 0 "[]" 0 True 0] hs
  have s: "ConsumeToken ?s 0 = Some (False, 3, Some (CreateString [0x61, 0x62]))"
      "TokenizeCodePoints ?s [] = Some (False, [])"
    by (simp_all add: TokenizeCodePoints_def)
  from t [of ?n 0 "[]" 2 True 0] hn
  have n: "ConsumeToken ?n 0 = Some (False, 2, Some CreateBadString)"
      "TokenizeCodePoints ?n [] = Some (False, [])"
    by (simp_all add: TokenizeCodePoints_def)
  from t [of ?u 0 "[]" 0 True 0] hu
  have u: "ConsumeToken ?u 0 = Some (False, 5, None)"
      "TokenizeCodePoints ?u [] = Some (False, [])"
    by (simp_all add: TokenizeCodePoints_def)
  from t [of ?b 0 "[]" 0 True 7] hb rest
  have b: "TokenizeCodePoints ?b [] = Some (True, [CreateBadURL, CreateRightParenthesis])"
    by (simp add: TokenizeCodePoints_def)
  from s n u hb b show ?thesis by simp
qed

section \<open>Claims\<close>

text \<open>
  C1. The code builds the recovery token and then drops it. At the end of the input
  \<^verbatim>\<open>ConsumeStringToken\<close> writes the String token and returns false; at a line feed
  inside a string it steps back onto the line feed, writes the BadString token and
  returns false. \<^verbatim>\<open>ConsumeToken\<close> passes the false on, and \<^verbatim>\<open>TokenizeCodePoints\<close>
  returns failure without pushing the token: \<^verbatim>\<open>"a\<close> and a string broken by a line
  feed both fail, and so does \<^verbatim>\<open>b "a\<close> after pushing the tokens of \<^verbatim>\<open>b\<close> and
  the space. At the end of the input \<^verbatim>\<open>ConsumeURL\<close> returns false and writes no URL
  token, so \<^verbatim>\<open>url(a\<close> fails as well. Only the BadURL path returns true:
  \<^verbatim>\<open>url(a"b)\<close> gives BadURL and RightParenthesis.
\<close>

theorem recovery_token_built_then_dropped:
  "ConsumeToken [QUOTATION_MARK, 0x61] 0 = Some (False, 2, Some (CreateString [0x61]))
   \<and> TokenizeCodePoints [QUOTATION_MARK, 0x61] [] = Some (False, [])
   \<and> ConsumeToken [QUOTATION_MARK, 0x61, LINE_FEED, 0x62, QUOTATION_MARK] 0
       = Some (False, 2, Some CreateBadString)
   \<and> TokenizeCodePoints [QUOTATION_MARK, 0x61, LINE_FEED, 0x62, QUOTATION_MARK] []
       = Some (False, [])
   \<and> ConsumeToken [0x62, SPACE, QUOTATION_MARK, 0x61] 2
       = Some (False, 4, Some (CreateString [0x61]))
   \<and> TokenizeCodePoints [0x62, SPACE, QUOTATION_MARK, 0x61] []
       = Some (False, [CreateIdent [0x62], CreateWhitespace])
   \<and> ConsumeToken [LATIN_SMALL_LETTER_U, LATIN_SMALL_LETTER_R, LATIN_SMALL_LETTER_L,
                    LEFT_PARENTHESIS, 0x61] 0 = Some (False, 5, None)
   \<and> TokenizeCodePoints [LATIN_SMALL_LETTER_U, LATIN_SMALL_LETTER_R, LATIN_SMALL_LETTER_L,
                    LEFT_PARENTHESIS, 0x61] [] = Some (False, [])
   \<and> TokenizeCodePoints [LATIN_SMALL_LETTER_U, LATIN_SMALL_LETTER_R, LATIN_SMALL_LETTER_L,
                    LEFT_PARENTHESIS, 0x61, QUOTATION_MARK, 0x62, RIGHT_PARENTHESIS] []
       = Some (True, [CreateBadURL, CreateRightParenthesis])"
  by code_simp

text \<open>
  C2. For every byte buffer that \<^verbatim>\<open>CreateCodePointsStream\<close> accepts, whatever the
  platform's choice for plain \<^verbatim>\<open>char\<close> and whatever the caller's vector held before,
  the code points it produces contain no surrogate (U+D800 to U+DFFF), no U+000C, no
  U+000D and no U+0000.
\<close>

theorem decoder_output_preprocessed:
  assumes "CreateCodePointsStream plainCharSigned text output = (True, out)"
    and "c \<in> set out"
  shows "\<not> (0xD800 \<le> c \<and> c \<le> 0xDFFF) \<and> c \<noteq> FORM_FEED \<and> c \<noteq> CARRIAGE_RETURN
         \<and> c \<noteq> NULL_CODE_POINT"
proof -
  from assms(1) obtain p where "out = snd (UTF8Decode text p [])"
    by (auto simp add: CreateCodePointsStream_def Let_def split: if_splits)
  then have "list_all preprocessed out"
    by (simp add: UTF8Decode_preprocessed)
  with assms(2) have "preprocessed c"
    by (simp add: list_all_iff)
  then show ?thesis
    by (simp add: preprocessed_def IsSurrogate_unat word_le_nat_alt)
qed

theorem decoder_output_preprocessed_witness:
  "CreateCodePointsStream False [0x41, 0x0D, 0x0A, 0xED, 0xA0, 0x80, 0x0C, 0xE2, 0x82, 0xAC] []
     = (True, [0x41, 0x0A, 0xFFFD, 0xFFFD, 0xFFFD, 0x0A, 0x20AC])
   \<and> (0x20AC :: CodePoint) \<in> set [0x41, 0x0A, 0xFFFD, 0xFFFD, 0xFFFD, 0x0A, 0x20AC]
   \<and> \<not> (0xD800 \<le> (0x20AC :: CodePoint) \<and> (0x20AC :: CodePoint) \<le> 0xDFFF)
   \<and> (0x20AC :: CodePoint) \<noteq> FORM_FEED \<and> (0x20AC :: CodePoint) \<noteq> CARRIAGE_RETURN
   \<and> (0x20AC :: CodePoint) \<noteq> NULL_CODE_POINT"
proof -
  have run: "CreateCodePointsStream False
               [0x41, 0x0D, 0x0A, 0xED, 0xA0, 0x80, 0x0C, 0xE2, 0x82, 0xAC] []
             = (True, [0x41, 0x0A, 0xFFFD, 0xFFFD, 0xFFFD, 0x0A, 0x20AC])"
    by code_simp
  have mem: "(0x20AC :: CodePoint) \<in> set [0x41, 0x0A, 0xFFFD, 0xFFFD, 0xFFFD, 0x0A, 0x20AC]"
    by simp
  from decoder_output_preprocessed [OF run mem] run mem show ?thesis
    by simp
qed

text \<open>
  C3. \<^verbatim>\<open>ConsumeComments\<close> consumes at most one comment for each token, where the
  claim needs a loop. In \<^verbatim>\<open>/**//*\<close> the second comment opener has no closing
  \<^verbatim>\<open>*/\<close>, yet its two code points are tokenized as Delim tokens and the call
  succeeds. (Where a call of \<^verbatim>\<open>ConsumeToken\<close> does start on the opener, the failure
  the claim states holds: lemma \<open>unterminated_comment_fails\<close>.)
\<close>

theorem unterminated_comment_after_comment_accepted:
  "TokenizeCodePoints [SOLIDUS, ASTERISK, ASTERISK, SOLIDUS, SOLIDUS, ASTERISK] []
     = Some (True, [CreateDelim SOLIDUS, CreateDelim ASTERISK])"
  by code_simp

text \<open>
  C4. The claim fails on a buffer of exactly two bytes: \<^verbatim>\<open>BOMSniff\<close> answers
  \<^verbatim>\<open>Encoding::Count\<close> for every buffer shorter than three bytes, so FE FF alone is
  decoded as UTF-8, to two replacement characters, and the call succeeds.
\<close>

theorem utf16_bom_two_bytes_accepted:
  "CreateCodePointsStream False [0xFE, 0xFF] [] = (True, [REPLACEMENT, REPLACEMENT])
   \<and> CreateCodePointsStream True [0xFE, 0xFF] [] = (True, [REPLACEMENT, REPLACEMENT])
   \<and> CreateCodePointsStream False [0xFF, 0xFE] [] = (True, [REPLACEMENT, REPLACEMENT])"
  by code_simp

text \<open>
  C4, amended. Where plain \<^verbatim>\<open>char\<close> is unsigned, every buffer of at least three bytes
  whose first two bytes are FE FF or FF FE makes \<^verbatim>\<open>CreateCodePointsStream\<close> return
  failure and leaves the caller's vector as it was; a buffer shorter than three bytes is
  never rejected.
\<close>

theorem utf16_bom_rejected_from_three_bytes:
  "(3 \<le> length text
      \<and> ((text ! 0 = 0xFE \<and> text ! 1 = 0xFF) \<or> (text ! 0 = 0xFF \<and> text ! 1 = 0xFE))
     \<longrightarrow> CreateCodePointsStream False text output = (False, output))
   \<and> (length text < 3 \<longrightarrow> fst (CreateCodePointsStream plainCharSigned text output))"
  by (auto simp add: CreateCodePointsStream_def BOMSniff_def char_to_int_def Let_def)

theorem utf16_bom_rejected_from_three_bytes_witness:
  "CreateCodePointsStream False [0xFE, 0xFF, 0x00, 0x41] [0x42] = (False, [0x42])
   \<and> fst (CreateCodePointsStream True [0xFF, 0xFE] [0x42])"
  using utf16_bom_rejected_from_three_bytes
          [of "[0xFE, 0xFF, 0x00, 0x41]" "[0x42]" True]
        utf16_bom_rejected_from_three_bytes [of "[0xFF, 0xFE]" "[0x42]" True]
  by simp

text \<open>
  C5. The stored value does not follow the flag of the token, nor the formula of the
  claim.
  \<^item> \<^verbatim>\<open>1e5\<close>: the token's flag is false (there is an exponent part), but
    \<^verbatim>\<open>ConvertStringToNumber\<close> keeps its own flag, clears it only at a full stop or a
    negative exponent sign, and stores the 64-bit integer 100000.
  \<^item> \<^verbatim>\<open>1.5\<close>: the stored double is built from i = 1, f = 5, d = 1 by
    \<^verbatim>\<open>i + f * pow(10, d)\<close>, which is 51, not 1.5.
  \<^item> \<^verbatim>\<open>3.14e-2\<close>: the digit count d of the fraction is overwritten by that of the
    exponent (1), and the exponent \<^verbatim>\<open>t * e\<close> is computed in \<^verbatim>\<open>unsigned\<close>
    arithmetic, 4294967294 instead of -2.
  The first of them as a whole input, with a space behind it: the Number token that
  \<^verbatim>\<open>TokenizeCodePoints\<close> pushes holds the integer 100000 under a false flag.
\<close>

theorem number_stored_against_its_flag:
  "ConsumeNumber [0x31, LATIN_SMALL_LETTER_E, 0x35] 0
     = Some (True, 3, Some (NumberTokenValue (Int64 100000) False))
   \<and> ConsumeNumber [0x31, FULL_STOP, 0x35] 0
     = Some (True, 3, Some (NumberTokenValue (Double (DoubleExpr 1 1 5 1 0)) False))
   \<and> ConsumeNumber [0x33, FULL_STOP, 0x31, 0x34, LATIN_SMALL_LETTER_E, HYPHEN_MINUS, 0x32] 0
     = Some (True, 7, Some (NumberTokenValue (Double (DoubleExpr 1 3 14 1 0xFFFFFFFE)) False))
   \<and> TokenizeCodePoints [0x31, LATIN_SMALL_LETTER_E, 0x35, SPACE] []
     = Some (True, [CreateNumber (NumberTokenValue (Int64 100000) False), CreateWhitespace])"
  by code_simp

text \<open>
  C6. The look-ahead of \<^verbatim>\<open>ConsumeIdentLikeToken\<close> asks for a quotation mark
  followed by an apostrophe, not for either of them. For \<^verbatim>\<open>url("x")\<close> it falls
  through to \<^verbatim>\<open>ConsumeURL\<close>, which meets the quotation mark and writes BadURL: the
  tokens are BadURL and RightParenthesis, not Function, String and RightParenthesis.
\<close>

theorem quoted_url_is_bad_url:
  "TokenizeCodePoints
     [LATIN_SMALL_LETTER_U, LATIN_SMALL_LETTER_R, LATIN_SMALL_LETTER_L, LEFT_PARENTHESIS,
      QUOTATION_MARK, 0x78, QUOTATION_MARK, RIGHT_PARENTHESIS] []
     = Some (True, [CreateBadURL, CreateRightParenthesis])"
  by code_simp

text \<open>
  C7. After reading the commercial at, \<^verbatim>\<open>ConsumeToken\<close> checks whether an ident
  sequence starts at \<^verbatim>\<open>position - 1\<close>, which is the commercial at itself, so the check
  never succeeds (lemma \<open>COMMERCIAL_AT_not_ident_start\<close>) and no AtKeyword token is ever
  written. \<^verbatim>\<open>@media \<close> gives Delim(@), Ident(media), Whitespace.
\<close>

theorem at_media_is_delim:
  "TokenizeCodePoints [COMMERCIAL_AT, 0x6D, 0x65, 0x64, 0x69, 0x61, SPACE] []
     = Some (True, [CreateDelim COMMERCIAL_AT, CreateIdent [0x6D, 0x65, 0x64, 0x69, 0x61],
                    CreateWhitespace])"
  by code_simp

text \<open>
  C8. \<^verbatim>\<open>ConsumeToken\<close> has no branch for the right square bracket, so it reaches the
  last one: \<^verbatim>\<open>]\<close> gives a Delim token, and \<^verbatim>\<open>Token::CreateRightSquareBracket\<close> is
  never called.
\<close>

theorem right_square_bracket_is_delim:
  "TokenizeCodePoints [RIGHT_SQUARE_BRACKET] [] = Some (True, [CreateDelim RIGHT_SQUARE_BRACKET])"
  by code_simp

text \<open>
  C9. The two halves of the claim contradict each other, and the code does what the second
  one says: \<^verbatim>\<open>#-foo\<close> gives a Hash token with the id flag set, whose payload starts
  with a hyphen-minus, which is no ident-start code point and starts no escape.
\<close>

theorem hash_id_without_ident_start:
  "TokenizeCodePoints [NUMBER_SIGN, HYPHEN_MINUS, 0x66, 0x6F, 0x6F] []
     = Some (True, [CreateHash (HashTokenValue [HYPHEN_MINUS, 0x66, 0x6F, 0x6F] True)])
   \<and> \<not> IsIdentStart HYPHEN_MINUS
   \<and> \<not> AreTwoCodePointsValidEscape [HYPHEN_MINUS, 0x66, 0x6F, 0x6F] 0"
  by code_simp

text \<open>
  C9, amended. Every Hash token that \<^verbatim>\<open>ConsumeToken\<close> writes with the id flag set
  comes from a number sign whose following code points would start an ident sequence, and
  its payload is not empty. Either the payload's first code point is the code point
  behind the number sign, which is an ident-start code point or a hyphen-minus; or the
  code points behind the number sign are a valid escape, and the payload's first code
  point is the one that \<^verbatim>\<open>ConsumeEscapedCodePoint\<close> returns for it.
  \<^verbatim>\<open>#-foo\<close> gives Hash(-foo) with the id flag set.
\<close>

theorem hash_id_flag:
  "(ConsumeToken inputStream position
       = Some (ok, position', Some (CreateHash (HashTokenValue v True)))
     \<longrightarrow> (\<exists>p. position \<le> p \<and> p + 1 < length inputStream \<and> inputStream ! p = NUMBER_SIGN
             \<and> DoThreeCodePointsStartIndentSequence inputStream (p + 1)
             \<and> v \<noteq> []
             \<and> ((IsIdentStart (hd v) \<or> hd v = HYPHEN_MINUS) \<and> hd v = inputStream ! (p + 1)
                 \<or> AreTwoCodePointsValidEscape inputStream (p + 1)
                   \<and> (\<exists>q. ConsumeEscapedCodePoint inputStream (p + 2)
                              = Some (True, q, hd v)))))
   \<and> TokenizeCodePoints [NUMBER_SIGN, HYPHEN_MINUS, 0x66, 0x6F, 0x6F] []
       = Some (True, [CreateHash (HashTokenValue [HYPHEN_MINUS, 0x66, 0x6F, 0x6F] True)])"
proof (intro conjI impI)
  assume "ConsumeToken inputStream position
            = Some (ok, position', Some (CreateHash (HashTokenValue v True)))"
  from ConsumeToken_Hash [OF this] obtain p ok2 where
    le: "position \<le> p" and inb1: "p + 1 < length inputStream"
    and hash: "inputStream ! p = NUMBER_SIGN"
    and isID: "DoThreeCodePointsStartIndentSequence inputStream (p + 1)"
    and seq: "ConsumeIdentSequence_loop inputStream (p + 1) [] = Some (ok2, position', Some v)"
    by auto
  from starts_ident_first [OF isID] consider
      (start) "IsIdentStart (inputStream ! (p + 1))"
    | (minus) "inputStream ! (p + 1) = HYPHEN_MINUS"
    | (escape) "AreTwoCodePointsValidEscape inputStream (p + 1)"
    by blast
  then have "v \<noteq> []
     \<and> ((IsIdentStart (hd v) \<or> hd v = HYPHEN_MINUS) \<and> hd v = inputStream ! (p + 1)
         \<or> AreTwoCodePointsValidEscape inputStream (p + 1)
           \<and> (\<exists>q. ConsumeEscapedCodePoint inputStream (p + 2) = Some (True, q, hd v)))"
  proof cases
    case start
    then have "IsIdent (inputStream ! (p + 1))" by (simp add: IsIdent_def)
    from ConsumeIdentSequence_loop_first(1) [OF seq inb1 this] start show ?thesis by simp
  next
    case minus
    then have "IsIdent (inputStream ! (p + 1))" by (simp add: IsIdent_def)
    from ConsumeIdentSequence_loop_first(1) [OF seq inb1 this] minus show ?thesis by simp
  next
    case escape
    have "p + 1 + 1 = p + 2" by simp
    with ConsumeIdentSequence_loop_escape [OF seq escape] escape show ?thesis by simp
  qed
  with le hash inb1 isID
  show "\<exists>p. position \<le> p \<and> p + 1 < length inputStream \<and> inputStream ! p = NUMBER_SIGN
             \<and> DoThreeCodePointsStartIndentSequence inputStream (p + 1)
             \<and> v \<noteq> []
             \<and> ((IsIdentStart (hd v) \<or> hd v = HYPHEN_MINUS) \<and> hd v = inputStream ! (p + 1)
                 \<or> AreTwoCodePointsValidEscape inputStream (p + 1)
                   \<and> (\<exists>q. ConsumeEscapedCodePoint inputStream (p + 2)
                              = Some (True, q, hd v)))"
    by blast
next
  show "TokenizeCodePoints [NUMBER_SIGN, HYPHEN_MINUS, 0x66, 0x6F, 0x6F] []
       = Some (True, [CreateHash (HashTokenValue [HYPHEN_MINUS, 0x66, 0x6F, 0x6F] True)])"
    by code_simp
qed

theorem hash_id_flag_witness:
  "ConsumeToken [NUMBER_SIGN, REVERSE_SOLIDUS, 0x7A, 0x61, SPACE] 0
     = Some (True, 4, Some (CreateHash (HashTokenValue [0x7A, 0x61] True)))
   \<and> (\<exists>p. 0 \<le> p \<and> p + 1 < length [NUMBER_SIGN, REVERSE_SOLIDUS, 0x7A, 0x61, SPACE]
          \<and> [NUMBER_SIGN, REVERSE_SOLIDUS, 0x7A, 0x61, SPACE] ! p = NUMBER_SIGN
          \<and> DoThreeCodePointsStartIndentSequence
               [NUMBER_SIGN, REVERSE_SOLIDUS, 0x7A, 0x61, SPACE] (p + 1)
          \<and> [0x7A, 0x61 :: CodePoint] \<noteq> []
          \<and> ((IsIdentStart (hd [0x7A, 0x61]) \<or> hd [0x7A, 0x61 :: CodePoint] = HYPHEN_MINUS)
                \<and> hd [0x7A, 0x61] = [NUMBER_SIGN, REVERSE_SOLIDUS, 0x7A, 0x61, SPACE] ! (p + 1)
              \<or> AreTwoCodePointsValidEscape
                    [NUMBER_SIGN, REVERSE_SOLIDUS, 0x7A, 0x61, SPACE] (p + 1)
                \<and> (\<exists>q. ConsumeEscapedCodePoint
                           [NUMBER_SIGN, REVERSE_SOLIDUS, 0x7A, 0x61, SPACE] (p + 2)
                         = Some (True, q, hd [0x7A, 0x61]))))
   \<and> TokenizeCodePoints [NUMBER_SIGN, HYPHEN_MINUS, 0x66, 0x6F, 0x6F] []
       = Some (True, [CreateHash (HashTokenValue [HYPHEN_MINUS, 0x66, 0x6F, 0x6F] True)])"
proof -
  have run: "ConsumeToken [NUMBER_SIGN, REVERSE_SOLIDUS, 0x7A, 0x61, SPACE] 0
     = Some (True, 4, Some (CreateHash (HashTokenValue [0x7A, 0x61] True)))"
    by code_simp
  from hash_id_flag [of "[NUMBER_SIGN, REVERSE_SOLIDUS, 0x7A, 0x61, SPACE]" 0 True 4
                        "[0x7A, 0x61]"] run
  show ?thesis by blast
qed

text \<open>
  C10. Both functions read past the end. After the number \<^verbatim>\<open>1\<close> at the end of the
  input, \<^verbatim>\<open>ConsumeNumericToken\<close> reads \<^verbatim>\<open>inputStream[position]\<close> for the percent
  check with \<^verbatim>\<open>position\<close> equal to the size. After a hex digit at the end of the
  input, \<^verbatim>\<open>ConsumeEscapedCodePoint\<close> reads the next code point in its hex-digit loop,
  and after fewer than six hex digits it reads one more for the whitespace check. Whole
  inputs that get there: \<^verbatim>\<open>1\<close>, and a string that ends in \<^verbatim>\<open>\41\<close>.
\<close>

theorem lookahead_reads_past_the_end:
  "ConsumeNumericToken [0x31] 0 = None
   \<and> ConsumeEscapedCodePoint [0x34] 0 = None
   \<and> ConsumeEscapedCodePoint [0x34, 0x31] 0 = None
   \<and> TokenizeCodePoints [0x31] [] = None
   \<and> TokenizeCodePoints [QUOTATION_MARK, REVERSE_SOLIDUS, 0x34, 0x31] [] = None"
  by code_simp

end
